theory Spec2Isabelle
  imports Complex_Main "HOL-Library.AList"
begin

section \<open>Python primitives used by the ADCIRC readers\<close>

text \<open>
  The readers are line-oriented Python parsers. Exceptions are values of the type
  \<open>error\<close>. The three built-in exception classes the parsers can meet are
  \<open>ValueError\<close> (raised by \<open>int()\<close> and \<open>float()\<close> on a malformed token),
  \<open>IndexError\<close> and \<open>KeyError\<close>. The readers raise \<open>ValueError\<close> themselves with
  four different messages; each message is a constructor of its own:
  \<open>FileNotFound\<close> ("File not found"), \<open>InvalidFile\<close> ("Invalid fort.13 file."),
  \<open>NodeCountMismatch\<close> ("Invalid number of nodes."), \<open>NoAttributes\<close>
  ("contains no nodal attributes") and \<open>IncorrectValueCount\<close> ("Incorrect number of
  values").
\<close>

datatype error =
    ValueError | IndexError | KeyError
  | FileNotFound | InvalidFile | NodeCountMismatch | NoAttributes | IncorrectValueCount

definition ebind :: "'e + 'a \<Rightarrow> ('a \<Rightarrow> 'e + 'b) \<Rightarrow> 'e + 'b" where
  "ebind m f = (case m of Inl e \<Rightarrow> Inl e | Inr x \<Rightarrow> f x)"

text \<open>
  An open text file is the list of its remaining lines, stored without the line
  terminator. \<open>readline\<close> returns the next line with its terminator, and the empty
  string at the end of the file, as Python does.
\<close>

type_synonym stream = "string list"

definition readline :: "stream \<Rightarrow> string \<times> stream" where
  "readline fs = (case fs of [] \<Rightarrow> ([], []) | l # ls \<Rightarrow> (l @ [CHR 0x0A], ls))"

definition is_space :: "char \<Rightarrow> bool" where
  "is_space c = (let n = (of_char c :: nat) in (9 \<le> n \<and> n \<le> 13) \<or> (28 \<le> n \<and> n \<le> 32))"

fun split_from :: "string \<Rightarrow> string \<Rightarrow> string list" where
  "split_from cur [] = (if cur = [] then [] else [cur])"
| "split_from cur (c # cs) =
     (if is_space c then (if cur = [] then split_from [] cs else cur # split_from [] cs)
      else split_from (cur @ [c]) cs)"

definition split :: "string \<Rightarrow> string list" where
  "split s = split_from [] s"

definition strip :: "string \<Rightarrow> string" where
  "strip s = rev (dropWhile is_space (rev (dropWhile is_space s)))"

definition replace_comma :: "string \<Rightarrow> string" where
  "replace_comma s = map (\<lambda>c. if c = CHR '','' then CHR '' '' else c) s"

definition partition_bang :: "string \<Rightarrow> string" where
  "partition_bang s = takeWhile (\<lambda>c. c \<noteq> CHR ''!'') s"

text \<open>
  \<open>int()\<close> and \<open>float()\<close> on a token. The model covers the decimal notations: an
  optional sign and digits for \<open>int()\<close>; an optional sign, digits with an optional
  fraction and an optional decimal exponent for \<open>float()\<close>. A float is the real number
  the token denotes. Python's digit-group underscores and the literals \<open>inf\<close> and
  \<open>nan\<close> are outside the model and are rejected like any malformed token.
\<close>

definition digit_val :: "char \<Rightarrow> nat option" where
  "digit_val c = (let n = (of_char c :: nat) in if 48 \<le> n \<and> n \<le> 57 then Some (n - 48) else None)"

fun digits_val :: "nat \<Rightarrow> string \<Rightarrow> nat option" where
  "digits_val acc [] = Some acc"
| "digits_val acc (c # cs) =
     (case digit_val c of None \<Rightarrow> None | Some d \<Rightarrow> digits_val (10 * acc + d) cs)"

definition parse_nat :: "string \<Rightarrow> nat option" where
  "parse_nat s = (if s = [] then None else digits_val 0 s)"

definition py_int :: "string \<Rightarrow> error + int" where
  "py_int s =
     (case s of
        [] \<Rightarrow> Inl ValueError
      | c # cs \<Rightarrow>
          if c = CHR ''-'' then (case parse_nat cs of None \<Rightarrow> Inl ValueError | Some n \<Rightarrow> Inr (- int n))
          else if c = CHR ''+'' then (case parse_nat cs of None \<Rightarrow> Inl ValueError | Some n \<Rightarrow> Inr (int n))
          else (case parse_nat s of None \<Rightarrow> Inl ValueError | Some n \<Rightarrow> Inr (int n)))"

definition parse_decimal :: "string \<Rightarrow> real option" where
  "parse_decimal s =
     (let ip = takeWhile (\<lambda>c. c \<noteq> CHR ''.'') s; r = dropWhile (\<lambda>c. c \<noteq> CHR ''.'') s
      in case r of
           [] \<Rightarrow> map_option real (parse_nat ip)
         | _ # fp \<Rightarrow>
             if ip = [] \<and> fp = [] then None
             else (case digits_val 0 ip of
                     None \<Rightarrow> None
                   | Some a \<Rightarrow>
                       (case digits_val 0 fp of
                          None \<Rightarrow> None
                        | Some b \<Rightarrow> Some (real a + real b / 10 ^ length fp))))"

definition is_exp_char :: "char \<Rightarrow> bool" where
  "is_exp_char c = (c = CHR ''e'' \<or> c = CHR ''E'')"

definition parse_unsigned_float :: "string \<Rightarrow> real option" where
  "parse_unsigned_float s =
     (let m = takeWhile (\<lambda>c. \<not> is_exp_char c) s; r = dropWhile (\<lambda>c. \<not> is_exp_char c) s
      in case r of
           [] \<Rightarrow> parse_decimal m
         | _ # ex \<Rightarrow>
             (case parse_decimal m of
                None \<Rightarrow> None
              | Some v \<Rightarrow>
                  (case py_int ex of
                     Inl _ \<Rightarrow> None
                   | Inr k \<Rightarrow> Some (if 0 \<le> k then v * 10 ^ nat k else v / 10 ^ nat (- k)))))"

definition py_float :: "string \<Rightarrow> error + real" where
  "py_float s =
     (case s of
        [] \<Rightarrow> Inl ValueError
      | c # cs \<Rightarrow>
          if c = CHR ''-'' then (case parse_unsigned_float cs of None \<Rightarrow> Inl ValueError | Some v \<Rightarrow> Inr (- v))
          else if c = CHR ''+'' then (case parse_unsigned_float cs of None \<Rightarrow> Inl ValueError | Some v \<Rightarrow> Inr v)
          else (case parse_unsigned_float s of None \<Rightarrow> Inl ValueError | Some v \<Rightarrow> Inr v))"

fun floats_of :: "string list \<Rightarrow> error + real list" where
  "floats_of [] = Inr []"
| "floats_of (t # ts) =
     ebind (py_float t) (\<lambda>v. ebind (floats_of ts) (\<lambda>vs. Inr (v # vs)))"

text \<open>
  List subscripts. \<open>py_index\<close> is a read at a non-negative constant position;
  \<open>py_setitem\<close> is the assignment \<open>xs[i] = v\<close> at a computed integer position, where
  a negative \<open>i\<close> counts from the end and anything outside \<open>-len..len-1\<close> raises.
  \<open>py_lookup\<close> is the subscript of a dict, which is an association list in insertion
  order (\<open>AList.update\<close> keeps the position of a key that is already present, as a
  Python dict does).
\<close>

definition py_index :: "'a list \<Rightarrow> nat \<Rightarrow> error + 'a" where
  "py_index xs n = (if n < length xs then Inr (xs ! n) else Inl IndexError)"

definition py_setitem :: "'a list \<Rightarrow> int \<Rightarrow> 'a \<Rightarrow> error + 'a list" where
  "py_setitem xs i v =
     (let n = int (length xs); j = (if i < 0 then n + i else i)
      in if 0 \<le> j \<and> j < n then Inr (xs[nat j := v]) else Inl IndexError)"

definition py_lookup :: "('k \<times> 'v) list \<Rightarrow> 'k \<Rightarrow> error + 'v" where
  "py_lookup d k = (case map_of d k of None \<Rightarrow> Inl KeyError | Some v \<Rightarrow> Inr v)"

fun digit_chars :: "nat \<Rightarrow> string" where
  "digit_chars n =
     (if n < 10 then [char_of (48 + n)] else digit_chars (n div 10) @ [char_of (48 + n mod 10)])"

definition first_int :: "string \<Rightarrow> error + int" where
  "first_int line = ebind (py_index (split line) 0) py_int"

section \<open>Nodal attributes: \<open>xms/adcirc/fort13_reader.py\<close>\<close>

record dataset =
  ds_name :: string
  ds_timesteps :: "(real \<times> real list) list"

record fort13 =
  geom_num_nodes13 :: int
  num_nodes13 :: int
  num_atts13 :: int
  att_defaults :: "(string \<times> real list) list"
  att_dsets :: "(string \<times> dataset list) list"
  datasets13 :: "(string \<times> dataset) list"
  built_data13 :: "dataset list"
  nodal_atts :: "(string \<times> real) list"
  warnings13 :: "string list"

definition fort13_init :: "int \<Rightarrow> fort13" where
  "fort13_init n =
     \<lparr>geom_num_nodes13 = n, num_nodes13 = 0, num_atts13 = 0, att_defaults = [], att_dsets = [],
      datasets13 = [], built_data13 = [], nodal_atts = [], warnings13 = []\<rparr>"

definition attribute_map :: "(string \<times> string list) list" where
  "attribute_map =
     [(''surface_submergence_state'', [''StartDry'']),
      (''surface_directional_effective_roughness_length'',
         [''Z0Land000'', ''Z0Land030'', ''Z0Land060'', ''Z0Land090'', ''Z0Land120'', ''Z0Land150'',
          ''Z0Land180'', ''Z0Land210'', ''Z0Land240'', ''Z0Land270'', ''Z0Land300'', ''Z0Land330'']),
      (''surface_canopy_coefficient'', [''VCanopy'']),
      (''bottom_roughness_length'', [''Z0b_var'']),
      (''wave_refraction_in_swan'', [''SwanWaveRefrac'']),
      (''average_horizontal_eddy_viscosity_in_sea_water_wrt_depth'', [''EVC'']),
      (''primitive_weighting_in_continuity_equation'', [''TAU0'']),
      (''quadratic_friction_coefficient_at_sea_floor'', [''Quadratic friction'']),
      (''bridge_pilings_friction_paramenters'', [''BK'', ''BAlpha'', ''BDelX'', ''POAN'']),
      (''mannings_n_at_sea_floor'', [''ManningsN'']),
      (''chezy_friction_coefficient_at_sea_floor'', [''ChezyFric'']),
      (''elemental_slope_limiter'', [''ElSloLim'']),
      (''advection_state'', [''AdvState'']),
      (''initial_river_elevation'', [''IniRivEle''])]"

definition get_dset_display_names :: "string \<Rightarrow> string list" where
  "get_dset_display_names a_att = (case map_of attribute_map a_att of None \<Rightarrow> [] | Some ns \<Rightarrow> ns)"

text \<open>First pass: name, two discarded lines and the default values of each attribute.\<close>

fun read_att_info :: "nat \<Rightarrow> stream \<Rightarrow> fort13 \<Rightarrow> (error \<times> fort13) + (fort13 \<times> stream)" where
  "read_att_info 0 fs st = Inr (st, fs)"
| "read_att_info (Suc n) fs st =
     (let (l1, fs1) = readline fs
      in case py_index (split l1) 0 of
           Inl e \<Rightarrow> Inl (e, st)
         | Inr att_name \<Rightarrow>
             (let (l2, fs2) = readline fs1; (l3, fs3) = readline fs2; (l4, fs4) = readline fs3
              in case floats_of (split (replace_comma l4)) of
                   Inl e \<Rightarrow> Inl (e, st)
                 | Inr default_vals \<Rightarrow>
                     read_att_info n fs4
                       (st\<lparr>att_defaults := AList.update att_name default_vals (att_defaults st)\<rparr>)))"

text \<open>
  Second pass. One exception record is a node id followed by one value for each
  component; \<open>set_components\<close> is the loop over the components of one record and
  \<open>read_exceptions\<close> the loop over the records of one attribute.
\<close>

fun set_components ::
  "nat \<Rightarrow> nat \<Rightarrow> string list \<Rightarrow> int \<Rightarrow> real list list \<Rightarrow> error + real list list" where
  "set_components 0 k line_data node_idx dset_vals = Inr dset_vals"
| "set_components (Suc n) k line_data node_idx dset_vals =
     ebind (py_index line_data (k + 1)) (\<lambda>t.
     ebind (py_float t) (\<lambda>v.
     ebind (py_index dset_vals k) (\<lambda>row.
     ebind (py_setitem row node_idx v) (\<lambda>row'.
       set_components n (k + 1) line_data node_idx (dset_vals[k := row'])))))"

fun read_exceptions ::
  "nat \<Rightarrow> nat \<Rightarrow> stream \<Rightarrow> real list list \<Rightarrow> error + (real list list \<times> stream)" where
  "read_exceptions 0 ncomp fs dset_vals = Inr (dset_vals, fs)"
| "read_exceptions (Suc n) ncomp fs dset_vals =
     (let (l, fs1) = readline fs; line_data = split (replace_comma l)
      in ebind (py_index line_data 0) (\<lambda>t.
         ebind (py_int t) (\<lambda>node_id.
         ebind (set_components ncomp 0 line_data (node_id - 1) dset_vals) (\<lambda>dset_vals'.
           read_exceptions n ncomp fs1 dset_vals'))))"

definition unknown_display_names :: "string \<Rightarrow> nat \<Rightarrow> string list" where
  "unknown_display_names att_name num_att_dsets =
     map (\<lambda>i. if num_att_dsets \<noteq> 1 then att_name @ '' ('' @ digit_chars (i + 1) @ '')'' else att_name)
       [0..<num_att_dsets]"

definition append_dset :: "string \<Rightarrow> dataset \<Rightarrow> (string \<times> dataset list) list \<Rightarrow> (string \<times> dataset list) list" where
  "append_dset att_name d m =
     (case map_of m att_name of
        None \<Rightarrow> AList.update att_name [d] m
      | Some ds \<Rightarrow> AList.update att_name (ds @ [d]) m)"

fun create_datasets ::
  "nat \<Rightarrow> nat \<Rightarrow> string \<Rightarrow> string list \<Rightarrow> real list list \<Rightarrow> fort13 \<Rightarrow> (error \<times> fort13) + fort13" where
  "create_datasets 0 j att_name display_names dset_vals st = Inr st"
| "create_datasets (Suc n) j att_name display_names dset_vals st =
     (case py_index display_names j of
        Inl e \<Rightarrow> Inl (e, st)
      | Inr dataset_name \<Rightarrow>
          (case py_index dset_vals j of
             Inl e \<Rightarrow> Inl (e, st)
           | Inr vals \<Rightarrow>
               (let dataset_writer = \<lparr>ds_name = dataset_name, ds_timesteps = [(0, vals)]\<rparr>
                in create_datasets n (j + 1) att_name display_names dset_vals
                     (st\<lparr>datasets13 := AList.update dataset_name dataset_writer (datasets13 st),
                         att_dsets := append_dset att_name dataset_writer (att_dsets st)\<rparr>))))"

definition mean :: "real list \<Rightarrow> real" where
  "mean xs = sum_list xs / real (length xs)"

definition read_att_block ::
  "string list \<Rightarrow> stream \<Rightarrow> fort13 \<Rightarrow> (error \<times> fort13) + (fort13 \<times> stream)" where
  "read_att_block att_name_line fs st =
     (case py_index att_name_line 0 of
        Inl e \<Rightarrow> Inl (e, st)
      | Inr att_name \<Rightarrow>
          (case py_lookup (att_defaults st) att_name of
             Inl e \<Rightarrow> Inl (e, st)
           | Inr defaults \<Rightarrow>
               (let num_att_dsets = length defaults; (l, fs1) = readline fs
                in case first_int l of
                     Inl e \<Rightarrow> Inl (e, st)
                   | Inr num_exceptions \<Rightarrow>
                       (let dset_vals = map (\<lambda>d. replicate (nat (num_nodes13 st)) d) defaults
                        in case read_exceptions (nat num_exceptions) (length defaults) fs1 dset_vals of
                             Inl e \<Rightarrow> Inl (e, st)
                           | Inr (dset_vals', fs2) \<Rightarrow>
                               if att_name = ''sea_surface_height_above_geoid'' then
                                 (case py_index dset_vals' 0 of
                                    Inl e \<Rightarrow> Inl (e, st)
                                  | Inr v0 \<Rightarrow>
                                      Inr (st\<lparr>nodal_atts :=
                                                AList.update ''sea_surface_height_above_geoid'' (mean v0)
                                                  (AList.update ''sea_surface_height_above_geoid_on'' 1
                                                     (nodal_atts st))\<rparr>, fs2))
                               else
                                 (let known = get_dset_display_names att_name;
                                      st1 = (if known = [] then st\<lparr>warnings13 := warnings13 st @ [att_name]\<rparr> else st);
                                      display_names =
                                        (if known = [] then unknown_display_names att_name num_att_dsets
                                         else known)
                                  in case create_datasets num_att_dsets 0 att_name display_names dset_vals' st1 of
                                       Inl x \<Rightarrow> Inl x
                                     | Inr st2 \<Rightarrow> Inr (st2, fs2))))))"

text \<open>
  The attribute name line is found by skipping blank lines. At the end of the file
  \<open>readline\<close> keeps returning the empty string, so the Python loop never leaves:
  the function is partial, and \<open>None\<close> stands for a read that does not return.
\<close>

partial_function (option) skip_blank_lines :: "stream \<Rightarrow> (string list \<times> stream) option" where
  "skip_blank_lines fs =
     (if split (fst (readline fs)) = [] then skip_blank_lines (snd (readline fs))
      else Some (split (fst (readline fs)), snd (readline fs)))"

fun read_att_values ::
  "nat \<Rightarrow> stream \<Rightarrow> fort13 \<Rightarrow> ((error \<times> fort13) + (fort13 \<times> stream)) option" where
  "read_att_values 0 fs st = Some (Inr (st, fs))"
| "read_att_values (Suc n) fs st =
     (case skip_blank_lines fs of
        None \<Rightarrow> None
      | Some (att_name_line, fs1) \<Rightarrow>
          (case read_att_block att_name_line fs1 st of
             Inl x \<Rightarrow> Some (Inl x)
           | Inr (st1, fs2) \<Rightarrow> read_att_values n fs2 st1))"

definition add_dsets_and_update_sim :: "fort13 \<Rightarrow> fort13" where
  "add_dsets_and_update_sim st = st\<lparr>built_data13 := built_data13 st @ concat (map snd (att_dsets st))\<rparr>"

text \<open>
  The file argument is \<open>None\<close> for a path that is not a file, and the list of its lines
  otherwise; the empty list is the file of size zero.
\<close>

definition fort13_read :: "string list option \<Rightarrow> fort13 \<Rightarrow> ((error \<times> fort13) + fort13) option" where
  "fort13_read in_file st =
     (case in_file of
        None \<Rightarrow> Some (Inl (FileNotFound, st))
      | Some ls \<Rightarrow>
          if ls = [] then Some (Inl (FileNotFound, st))
          else
            (let (l1, fs1) = readline ls; (l2, fs2) = readline fs1
             in case first_int l2 of
                  Inl e \<Rightarrow> Some (Inl (e, st))
                | Inr nn \<Rightarrow>
                    (let st1 = st\<lparr>num_nodes13 := nn\<rparr>; (l3, fs3) = readline fs2
                     in case first_int l3 of
                          Inl e \<Rightarrow> Some (Inl (e, st1))
                        | Inr na \<Rightarrow>
                            (let st2 = st1\<lparr>num_atts13 := na\<rparr>
                             in if num_nodes13 st2 \<le> 0 then Some (Inl (InvalidFile, st2))
                                else if num_nodes13 st2 \<noteq> geom_num_nodes13 st2 then
                                  Some (Inl (NodeCountMismatch, st2))
                                else if num_atts13 st2 = 0 then Some (Inl (NoAttributes, st2))
                                else
                                  (case read_att_info (nat (num_atts13 st2)) fs3 st2 of
                                     Inl x \<Rightarrow> Some (Inl x)
                                   | Inr (st3, fs4) \<Rightarrow>
                                       (case read_att_values (nat (num_atts13 st2)) fs4 st3 of
                                          None \<Rightarrow> None
                                        | Some (Inl x) \<Rightarrow> Some (Inl x)
                                        | Some (Inr (st4, fs5)) \<Rightarrow>
                                            Some (Inr (add_dsets_and_update_sim st4))))))))"

text \<open>
  The exception records of one attribute, read off the file independently of the reader:
  \<open>record_of\<close> is the node id and the \<open>ncomp\<close> values of one record line,
  \<open>exception_records\<close> the first \<open>n\<close> lines of a block, and \<open>last_override\<close>
  the value that the last record naming node \<open>i + 1\<close> gives to component \<open>k\<close>.
\<close>

definition record_of :: "nat \<Rightarrow> string \<Rightarrow> (int \<times> real list) option" where
  "record_of ncomp line =
     (let line_data = split (replace_comma line)
      in case ebind (py_index line_data 0) py_int of
           Inl _ \<Rightarrow> None
         | Inr node_id \<Rightarrow>
             (case floats_of (take ncomp (drop 1 line_data)) of
                Inl _ \<Rightarrow> None
              | Inr vs \<Rightarrow> if length vs = ncomp then Some (node_id, vs) else None))"

definition exception_records :: "nat \<Rightarrow> nat \<Rightarrow> stream \<Rightarrow> (int \<times> real list) option list" where
  "exception_records n ncomp fs = map (\<lambda>l. record_of ncomp (l @ [CHR 0x0A])) (take n fs)"

definition last_override :: "(int \<times> real list) option list \<Rightarrow> nat \<Rightarrow> nat \<Rightarrow> real option" where
  "last_override recs k i =
     map_of (rev (map (\<lambda>r. case r of None \<Rightarrow> (0, 0) | Some (node_id, vs) \<Rightarrow> (node_id, vs ! k)) recs))
       (int i + 1)"

definition scenario_B :: "string list" where
  "scenario_B =
     [''grid'', ''10'', ''1'',
      ''bottom_roughness_length'', ''m'', ''1'', ''0.025'',
      ''bottom_roughness_length'', ''1'', ''5 0.05'']"

definition node_zero_file :: "string list" where
  "node_zero_file =
     [''grid'', ''3'', ''1'',
      ''bottom_roughness_length'', ''m'', ''1'', ''0.025'',
      ''bottom_roughness_length'', ''1'', ''0 0.05'']"

text \<open>
  A nodal attribute file as the format lays it out, read off independently of the reader.
  \<open>line_at\<close> is what the \<open>i\<close>-th call of \<open>readline\<close> returns.
  \<open>att_info_entries\<close> lists the attribute names and default values declared in the
  first section (four lines for each attribute), and \<open>declared_defaults\<close> is the
  last declaration of an attribute. \<open>value_blocks\<close> cuts the second section into its
  attribute blocks: blank lines, the name line, the line with the number of exception
  records, and that many record lines. \<open>resolved_values\<close> is the array a component
  should end with: the value of the last record naming the node, and the default
  otherwise. \<open>expected_datasets\<close> are the datasets of one block, one for each
  component, and \<open>dsets_of\<close> reads the datasets the reader stored for an attribute.
\<close>

definition line_at :: "stream \<Rightarrow> nat \<Rightarrow> string" where
  "line_at fs i = (if i < length fs then fs ! i @ [CHR 0x0A] else [])"

definition floats_or_nil :: "string list \<Rightarrow> real list" where
  "floats_or_nil ts = (case floats_of ts of Inl _ \<Rightarrow> [] | Inr vs \<Rightarrow> vs)"

fun att_info_entries :: "nat \<Rightarrow> stream \<Rightarrow> (string \<times> real list) list" where
  "att_info_entries 0 fs = []"
| "att_info_entries (Suc n) fs =
     (hd (split (line_at fs 0)), floats_or_nil (split (replace_comma (line_at fs 3)))) #
       att_info_entries n (drop 4 fs)"

definition defaults_in :: "(string \<times> real list) list \<Rightarrow> string \<Rightarrow> real list" where
  "defaults_in m a = (case map_of m a of None \<Rightarrow> [] | Some d \<Rightarrow> d)"

definition declared_defaults :: "nat \<Rightarrow> stream \<Rightarrow> string \<Rightarrow> real list" where
  "declared_defaults na ls a = defaults_in (rev (att_info_entries na (drop 3 ls))) a"

fun value_blocks :: "nat \<Rightarrow> stream \<Rightarrow> (string \<times> string list) list" where
  "value_blocks 0 fs = []"
| "value_blocks (Suc n) fs =
     (case dropWhile (\<lambda>l. split (l @ [CHR 0x0A]) = []) fs of
        name_line # count_line # rest \<Rightarrow>
          (case first_int (count_line @ [CHR 0x0A]) of
             Inl _ \<Rightarrow> []
           | Inr c \<Rightarrow>
               (hd (split (name_line @ [CHR 0x0A])), take (nat c) rest) #
                 value_blocks n (drop (nat c) rest))
      | _ \<Rightarrow> [])"

definition display_names_of :: "string \<Rightarrow> nat \<Rightarrow> string list" where
  "display_names_of att_name ncomp =
     (if get_dset_display_names att_name = [] then unknown_display_names att_name ncomp
      else get_dset_display_names att_name)"

definition resolved_values :: "nat \<Rightarrow> real list \<Rightarrow> (int \<times> real list) option list \<Rightarrow> nat \<Rightarrow> real list" where
  "resolved_values N defaults recs k =
     map (\<lambda>i. case last_override recs k i of None \<Rightarrow> defaults ! k | Some v \<Rightarrow> v) [0..<N]"

definition expected_datasets :: "nat \<Rightarrow> string \<Rightarrow> real list \<Rightarrow> string list \<Rightarrow> dataset list" where
  "expected_datasets N att_name defaults record_lines =
     (if att_name = ''sea_surface_height_above_geoid'' then []
      else map (\<lambda>k. \<lparr>ds_name = display_names_of att_name (length defaults) ! k,
                       ds_timesteps =
                         [(0, resolved_values N defaults
                                (exception_records (length record_lines) (length defaults) record_lines) k)]\<rparr>)
             [0..<length defaults])"

definition dsets_of :: "(string \<times> dataset list) list \<Rightarrow> string \<Rightarrow> dataset list" where
  "dsets_of m a = (case map_of m a of None \<Rightarrow> [] | Some ds \<Rightarrow> ds)"

text \<open>
  A file with two attributes over four nodes: a known attribute with one component whose
  two records name the same node, and an unknown attribute with two components, one of
  its records separated by commas; a blank line stands between the two blocks.
  \<open>two_attribute_result\<close> is the state the reader ends in.
\<close>

definition two_attribute_file :: "string list" where
  "two_attribute_file =
     [''grid'', ''4'', ''2'',
      ''mannings_n_at_sea_floor'', ''m'', ''1'', ''0.02'',
      ''wind_drag'', ''1'', ''2'', ''1.0 2.0'',
      ''mannings_n_at_sea_floor'', ''2'', ''2 0.03'', ''2 0.04'',
      [],
      ''wind_drag'', ''2'', ''1 5.0 6.0'', ''4, 7.0, 8.0'']"

definition two_attribute_result :: fort13 where
  "two_attribute_result =
     \<lparr>geom_num_nodes13 = 4, num_nodes13 = 4, num_atts13 = 2,
      att_defaults = [(''mannings_n_at_sea_floor'', [0.02]), (''wind_drag'', [1, 2])],
      att_dsets =
        [(''mannings_n_at_sea_floor'',
            [\<lparr>ds_name = ''ManningsN'', ds_timesteps = [(0, [0.02, 0.04, 0.02, 0.02])]\<rparr>]),
         (''wind_drag'',
            [\<lparr>ds_name = ''wind_drag (1)'', ds_timesteps = [(0, [5, 1, 1, 7])]\<rparr>,
             \<lparr>ds_name = ''wind_drag (2)'', ds_timesteps = [(0, [6, 2, 2, 8])]\<rparr>])],
      datasets13 =
        [(''ManningsN'', \<lparr>ds_name = ''ManningsN'', ds_timesteps = [(0, [0.02, 0.04, 0.02, 0.02])]\<rparr>),
         (''wind_drag (1)'', \<lparr>ds_name = ''wind_drag (1)'', ds_timesteps = [(0, [5, 1, 1, 7])]\<rparr>),
         (''wind_drag (2)'', \<lparr>ds_name = ''wind_drag (2)'', ds_timesteps = [(0, [6, 2, 2, 8])]\<rparr>)],
      built_data13 =
        [\<lparr>ds_name = ''ManningsN'', ds_timesteps = [(0, [0.02, 0.04, 0.02, 0.02])]\<rparr>,
         \<lparr>ds_name = ''wind_drag (1)'', ds_timesteps = [(0, [5, 1, 1, 7])]\<rparr>,
         \<lparr>ds_name = ''wind_drag (2)'', ds_timesteps = [(0, [6, 2, 2, 8])]\<rparr>],
      nodal_atts = [], warnings13 = [''wind_drag'']\<rparr>"


section \<open>Mesh geometry: \<open>xms/adcirc/fort14_reader.py\<close>\<close>

text \<open>
  The mesh is built by the external package \<open>xms.grid\<close>. Its \<open>XmUGrid\<close> is the pair of
  the point list and the cell stream it is constructed from; \<open>xm_cells\<close> reads the
  stream as the package does, each cell being a type code, a count and that many point
  indices. The bounding extents of the grid are computed by the package: the reader
  takes them through the parameter \<open>ext\<close>, and \<open>bounding_box\<close> is the componentwise
  minimum and maximum of a non-empty point list.
\<close>

type_synonym point = "real \<times> real \<times> real"

record ugrid =
  ug_points :: "point list"
  ug_cellstream :: "int list"

definition TRIANGLE :: int where
  \<comment> \<open>Modelled from the spec: \<open>XmUGrid.cell_type_enum.TRIANGLE\<close> of the external
      package \<open>xms.grid\<close>, the type code of the spec's triangular cell. The package
      uses the VTK code 5; no statement depends on the number.\<close>
  "TRIANGLE = 5"

fun xm_cells :: "int list \<Rightarrow> int list list" where
  "xm_cells (t # n # rest) = take (nat n) rest # xm_cells (drop (nat n) rest)"
| "xm_cells _ = []"

fun bounding_box :: "point list \<Rightarrow> point \<times> point" where
  "bounding_box [] = ((0, 0, 0), (0, 0, 0))"
| "bounding_box [p] = (p, p)"
| "bounding_box ((x, y, z) # ps) =
     (case bounding_box ps of
        ((x0, y0, z0), (x1, y1, z1)) \<Rightarrow>
          ((min x x0, min y y0, min z z0), (max x x1, max y y1, max z z1)))"

definition GEOGRAPHIC_WKT :: string where
  \<open>GEOGRAPHIC_WKT =
     ''GEOGCS["NAD83",DATUM["North_American_Datum_1983",SPHEROID["GRS 1980",6378137,298.257222101,'' @
     ''AUTHORITY["EPSG","7019"]],TOWGS84[0,0,0,0,0,0,0],AUTHORITY["EPSG","6269"]],PRIMEM["Greenwich",0,'' @
     ''AUTHORITY["EPSG","8901"]],UNIT["degree",0.0174532925199433,AUTHORITY["EPSG","9122"]],'' @
     ''AUTHORITY["EPSG","4269"]]''\<close>

definition LOCAL_METERS_WKT :: string where
  \<open>LOCAL_METERS_WKT = ''LOCAL_CS["None",LOCAL_DATUM["None",0],UNIT["Meter",1],AXIS["None",OTHER]]''\<close>

text \<open>
  The entries that a run of node lines leaves in the point map: each line stores its
  coordinates under its point id, with the size of the map at that moment as the index.
\<close>

fun insert_nodes :: "(int \<times> point) list \<Rightarrow> (int \<times> (point \<times> nat)) list \<Rightarrow> (int \<times> (point \<times> nat)) list" where
  "insert_nodes [] m = m"
| "insert_nodes ((point_id, xyz) # es) m = insert_nodes es (AList.update point_id (xyz, length m) m)"

record fort14 =
  lines14 :: "string list"
  mesh_name :: string
  pt_map :: "(int \<times> (point \<times> nat)) list"
  assume_geo_coords :: bool
  num_nodes14 :: int
  num_cells14 :: int
  current_line :: nat
  wkt14 :: string
  co_grid :: "ugrid option"

definition fort14_init :: fort14 where
  "fort14_init =
     \<lparr>lines14 = [], mesh_name = [], pt_map = [], assume_geo_coords = False, num_nodes14 = 0,
      num_cells14 = 0, current_line = 0, wkt14 = [], co_grid = None\<rparr>"

text \<open>
  One node line: \<open>point_id x y z\<close>. The right-hand side of the assignment (the three
  floats) is evaluated before the subscript \<open>int(line_data[0])\<close>; the depth is negated.
\<close>

definition node_entry :: "string list \<Rightarrow> error + (int \<times> point)" where
  "node_entry line_data =
     ebind (py_index line_data 1) (\<lambda>t1. ebind (py_float t1) (\<lambda>x.
     ebind (py_index line_data 2) (\<lambda>t2. ebind (py_float t2) (\<lambda>y.
     ebind (py_index line_data 3) (\<lambda>t3. ebind (py_float t3) (\<lambda>z.
     ebind (py_index line_data 0) (\<lambda>t0. ebind (py_int t0) (\<lambda>point_id.
       Inr (point_id, (x, y, z * - 1))))))))))"

definition read_node :: "fort14 \<Rightarrow> (error \<times> fort14) + fort14" where
  "read_node st =
     (case py_index (lines14 st) (current_line st) of
        Inl e \<Rightarrow> Inl (e, st)
      | Inr line \<Rightarrow>
          (let line_data = split line;
               st1 = st\<lparr>current_line := current_line st + 1\<rparr>;
               point_index = length (pt_map st1)
           in case node_entry line_data of
                Inl e \<Rightarrow> Inl (e, st1)
              | Inr (point_id, xyz) \<Rightarrow>
                  Inr (st1\<lparr>pt_map := AList.update point_id (xyz, point_index) (pt_map st1)\<rparr>)))"

fun read_nodes :: "nat \<Rightarrow> fort14 \<Rightarrow> (error \<times> fort14) + fort14" where
  "read_nodes 0 st = Inr st"
| "read_nodes (Suc n) st =
     (case read_node st of Inl x \<Rightarrow> Inl x | Inr st1 \<Rightarrow> read_nodes n st1)"

definition cell_ref :: "fort14 \<Rightarrow> string list \<Rightarrow> nat \<Rightarrow> error + int" where
  "cell_ref st line_data c =
     ebind (py_index line_data c) (\<lambda>t. ebind (py_int t) (\<lambda>point_id.
     ebind (py_lookup (pt_map st) point_id) (\<lambda>entry. Inr (int (snd entry)))))"

definition get_cell_stream_vals :: "fort14 \<Rightarrow> (error \<times> fort14) + (int list \<times> fort14)" where
  "get_cell_stream_vals st =
     (case py_index (lines14 st) (current_line st) of
        Inl e \<Rightarrow> Inl (e, st)
      | Inr line \<Rightarrow>
          (let line_data = split line; st1 = st\<lparr>current_line := current_line st + 1\<rparr>
           in case ebind (cell_ref st1 line_data 2) (\<lambda>i1.
                   ebind (cell_ref st1 line_data 3) (\<lambda>i2.
                   ebind (cell_ref st1 line_data 4) (\<lambda>i3. Inr [TRIANGLE, 3, i1, i2, i3]))) of
                Inl e \<Rightarrow> Inl (e, st1)
              | Inr vals \<Rightarrow> Inr (vals, st1)))"

fun read_cells :: "nat \<Rightarrow> fort14 \<Rightarrow> (error \<times> fort14) + (int list \<times> fort14)" where
  "read_cells 0 st = Inr ([], st)"
| "read_cells (Suc n) st =
     (case get_cell_stream_vals st of
        Inl x \<Rightarrow> Inl x
      | Inr (vals, st1) \<Rightarrow>
          (case read_cells n st1 of
             Inl x \<Rightarrow> Inl x
           | Inr (rest, st2) \<Rightarrow> Inr (vals @ rest, st2)))"

definition read_mesh :: "(point list \<Rightarrow> point \<times> point) \<Rightarrow> fort14 \<Rightarrow> (error \<times> fort14) + fort14" where
  "read_mesh ext st =
     (case py_index (lines14 st) (current_line st) of
        Inl e \<Rightarrow> Inl (e, st)
      | Inr line \<Rightarrow>
          (let line_data = split line; st1 = st\<lparr>current_line := current_line st + 1\<rparr>
           in case ebind (py_index line_data 0) py_int of
                Inl e \<Rightarrow> Inl (e, st1)
              | Inr nc \<Rightarrow>
                  (let st2 = st1\<lparr>num_cells14 := nc\<rparr>
                   in case ebind (py_index line_data 1) py_int of
                        Inl e \<Rightarrow> Inl (e, st2)
                      | Inr nn \<Rightarrow>
                          (case read_nodes (nat nn) (st2\<lparr>num_nodes14 := nn\<rparr>) of
                             Inl x \<Rightarrow> Inl x
                           | Inr st3 \<Rightarrow>
                               (case read_cells (nat (num_cells14 st3)) st3 of
                                  Inl x \<Rightarrow> Inl x
                                | Inr (cell_stream, st4) \<Rightarrow>
                                    (let points = map (\<lambda>point_data. fst (snd point_data)) (pt_map st4);
                                         u_grid = \<lparr>ug_points = points, ug_cellstream = cell_stream\<rparr>;
                                         st5 = st4\<lparr>co_grid := Some u_grid\<rparr>
                                     in case ext points of
                                          ((min_lon, min_lat, _), (max_lon, max_lat, _)) \<Rightarrow>
                                            if min_lon \<ge> - 180 \<and> min_lat \<ge> - 90 \<and>
                                               max_lon \<le> 180 \<and> max_lat \<le> 90
                                            then Inr (st5\<lparr>assume_geo_coords := True\<rparr>)
                                            else Inr st5))))))"

definition readlines :: "string list \<Rightarrow> string list" where
  "readlines f = map (\<lambda>l. l @ [CHR 0x0A]) f"

definition parse_lines :: "(point list \<Rightarrow> point \<times> point) \<Rightarrow> string list \<Rightarrow> fort14 \<Rightarrow> (error \<times> fort14) + fort14" where
  "parse_lines ext f st =
     (let st1 = st\<lparr>lines14 := readlines f\<rparr>
      in case py_index (lines14 st1) (current_line st1) of
           Inl e \<Rightarrow> Inl (e, st1)
         | Inr line \<Rightarrow>
             read_mesh ext (st1\<lparr>mesh_name := strip line, current_line := current_line st1 + 1\<rparr>))"

definition assign_wkt :: "fort14 \<Rightarrow> fort14" where
  "assign_wkt st =
     (if assume_geo_coords st then st\<lparr>wkt14 := GEOGRAPHIC_WKT\<rparr> else st\<lparr>wkt14 := LOCAL_METERS_WKT\<rparr>)"

text \<open>
  \<open>fort14_read\<close> is \<open>Fort14Reader.read\<close> on a fresh reader; the Python returns the pair
  of \<open>co_grid\<close> and \<open>wkt14\<close> of the final state.
\<close>

definition fort14_read :: "(point list \<Rightarrow> point \<times> point) \<Rightarrow> string list option \<Rightarrow> (error \<times> fort14) + fort14" where
  "fort14_read ext filename =
     (case filename of
        None \<Rightarrow> Inl (FileNotFound, fort14_init)
      | Some f \<Rightarrow>
          if f = [] then Inl (FileNotFound, fort14_init)
          else (case parse_lines ext f fort14_init of
                  Inl x \<Rightarrow> Inl x
                | Inr st \<Rightarrow> Inr (assign_wkt st)))"

text \<open>
  What a mesh file says, read off independently of the reader: the integer and the
  float in column \<open>c\<close> of a line, the point ids of the first \<open>n\<close> node lines, the
  point map entries that a list of distinct node lines produces, the cell stream of a
  list of triangles, and the test on the extents.
\<close>

definition line_int :: "string \<Rightarrow> nat \<Rightarrow> error + int" where
  "line_int l c = ebind (py_index (split (l @ [CHR 0x0A])) c) py_int"

definition line_float :: "string \<Rightarrow> nat \<Rightarrow> error + real" where
  "line_float l c = ebind (py_index (split (l @ [CHR 0x0A])) c) py_float"

definition file_point_ids :: "nat \<Rightarrow> string list \<Rightarrow> (error + int) list" where
  "file_point_ids n f = map (\<lambda>l. line_int l 0) (take n (drop 2 f))"

definition indexed :: "nat \<Rightarrow> (int \<times> point) list \<Rightarrow> (int \<times> (point \<times> nat)) list" where
  "indexed n es = map (\<lambda>(i, e). (fst e, (snd e, i))) (enumerate n es)"

definition cell_stream_of :: "int list list \<Rightarrow> int list" where
  "cell_stream_of cells = concat (map (\<lambda>c. TRIANGLE # 3 # c) cells)"

definition in_geographic_bounds :: "point \<times> point \<Rightarrow> bool" where
  "in_geographic_bounds e =
     (case e of ((min_lon, min_lat, _), (max_lon, max_lat, _)) \<Rightarrow>
        min_lon \<ge> - 180 \<and> min_lat \<ge> - 90 \<and> max_lon \<le> 180 \<and> max_lat \<le> 90)"

definition repeated_id_mesh :: "string list" where
  "repeated_id_mesh =
     [''grid'', ''1 3'', ''1 0.0 0.0 1.0'', ''2 1.0 0.0 2.0'', ''1 0.0 1.0 3.0'', ''1 3 1 2 1'']"

definition two_triangle_mesh :: "string \<Rightarrow> string list" where
  "two_triangle_mesh x =
     [''grid'', ''2 4'', ''10 0.0 0.0 1.5'', ''20 '' @ x @ '' 0.0 2.5'', ''30 0.0 10.0 3.5'',
      ''40 10.0 10.0 4.5'', ''1 3 10 20 30'', ''2 3 20 40 30'']"

definition undefined_point_mesh :: "string list" where
  "undefined_point_mesh =
     [''grid'', ''1 3'', ''1 0.0 0.0 1.0'', ''2 1.0 0.0 2.0'', ''3 0.0 1.0 3.0'', ''1 3 1 2 7'']"

definition two_triangle_state :: "string \<Rightarrow> real \<Rightarrow> fort14" where
  "two_triangle_state xs x =
     \<lparr>lines14 = readlines (two_triangle_mesh xs), mesh_name = ''grid'',
      pt_map = [(10, ((0, 0, - 1.5), 0)), (20, ((x, 0, - 2.5), 1)), (30, ((0, 10, - 3.5), 2)),
                (40, ((10, 10, - 4.5), 3))],
      assume_geo_coords = (x \<le> 180), num_nodes14 = 4, num_cells14 = 2, current_line = 8,
      wkt14 = (if x \<le> 180 then GEOGRAPHIC_WKT else LOCAL_METERS_WKT),
      co_grid = Some \<lparr>ug_points = [(0, 0, - 1.5), (x, 0, - 2.5), (0, 10, - 3.5), (10, 10, - 4.5)],
                       ug_cellstream = [TRIANGLE, 3, 0, 1, 2, TRIANGLE, 3, 1, 3, 2]\<rparr>\<rparr>"

definition repeated_id_state :: fort14 where
  "repeated_id_state =
     \<lparr>lines14 = readlines repeated_id_mesh, mesh_name = ''grid'',
      pt_map = [(1, ((0, 0, - 1), 0)), (2, ((1, 0, - 2), 1))],
      assume_geo_coords = False, num_nodes14 = 3, num_cells14 = 1, current_line = 4,
      wkt14 = [], co_grid = None\<rparr>"

section \<open>Solution files: \<open>initial_adcirc_readers/solution_importer.py\<close>\<close>

text \<open>
  The reader object keeps the header counts of the file being read, the path of that
  file, the flag \<open>read_data\<close>, the datasets handed to the host (\<open>add_xmdf_dataset\<close>, in
  call order) and the messages logged at warning or error level. The values of one
  timestep are a list of floats for a scalar dataset and a list of pairs for a vector
  dataset.
\<close>

datatype ts_values = Scalar "real list" | Vector "(real \<times> real) list"

record sol_dataset =
  sd_name :: string
  sd_num_components :: nat
  sd_timesteps :: "(real \<times> ts_values) list"

datatype log_entry =
    ErrorReadingSolutionFile string
  | EmptySolutionDataSet string
  | UnableToDetermineFormat string
  | NoSolutionFilesFound

record sol_reader =
  num_ts :: int
  num_nodes_sol :: int
  read_file :: string
  read_data :: bool
  added :: "sol_dataset list"
  log :: "log_entry list"

definition sol_init :: sol_reader where
  "sol_init = \<lparr>num_ts = 0, num_nodes_sol = 0, read_file = [], read_data = False, added = [], log = []\<rparr>"

definition read_header :: "stream \<Rightarrow> sol_reader \<Rightarrow> (error \<times> sol_reader) + (sol_reader \<times> stream)" where
  "read_header fs st =
     (let (l1, fs1) = readline fs; (l2, fs2) = readline fs1; time_line = split l2
      in case ebind (py_index time_line 0) py_int of
           Inl e \<Rightarrow> Inl (e, st)
         | Inr nts \<Rightarrow>
             (let st1 = st\<lparr>num_ts := nts\<rparr>
              in case ebind (py_index time_line 1) py_int of
                   Inl e \<Rightarrow> Inl (e, st1)
                 | Inr nn \<Rightarrow> Inr (st1\<lparr>num_nodes_sol := nn\<rparr>, fs2)))"

text \<open>
  The value lines of one scalar timestep. The result carries the flag \<open>add_timestep\<close>:
  it is \<open>False\<close> when a value line is missing or blank, and the loop stops there.
\<close>

fun read_scalar_vals ::
  "nat \<Rightarrow> nat \<Rightarrow> bool \<Rightarrow> stream \<Rightarrow> real list \<Rightarrow> error + (bool \<times> real list \<times> stream)" where
  "read_scalar_vals 0 j sparse fs ts_vals = Inr (True, ts_vals, fs)"
| "read_scalar_vals (Suc n) j sparse fs ts_vals =
     (if fst (readline fs) = [] \<or> strip (fst (readline fs)) = [] then
        Inr (False, ts_vals, snd (readline fs))
      else if sparse then
        ebind (py_index (split (fst (readline fs))) 0) (\<lambda>t0. ebind (py_int t0) (\<lambda>node_id.
        ebind (py_index (split (fst (readline fs))) 1) (\<lambda>t1. ebind (py_float t1) (\<lambda>v.
        ebind (py_setitem ts_vals (node_id - 1) v) (\<lambda>ts_vals'.
          read_scalar_vals n (j + 1) sparse (snd (readline fs)) ts_vals')))))
      else
        ebind (py_index (split (fst (readline fs))) 1) (\<lambda>t1. ebind (py_float t1) (\<lambda>v.
        ebind (py_setitem ts_vals (int j) v) (\<lambda>ts_vals'.
          read_scalar_vals n (j + 1) sparse (snd (readline fs)) ts_vals'))))"

fun read_vector_vals ::
  "nat \<Rightarrow> nat \<Rightarrow> bool \<Rightarrow> stream \<Rightarrow> (real \<times> real) list \<Rightarrow> error + (bool \<times> (real \<times> real) list \<times> stream)" where
  "read_vector_vals 0 j sparse fs ts_vals = Inr (True, ts_vals, fs)"
| "read_vector_vals (Suc n) j sparse fs ts_vals =
     (if fst (readline fs) = [] \<or> strip (fst (readline fs)) = [] then
        Inr (False, ts_vals, snd (readline fs))
      else if sparse then
        ebind (py_index (split (fst (readline fs))) 0) (\<lambda>t0. ebind (py_int t0) (\<lambda>node_id.
        ebind (py_index (split (fst (readline fs))) 1) (\<lambda>t1. ebind (py_float t1) (\<lambda>v1.
        ebind (py_index (split (fst (readline fs))) 2) (\<lambda>t2. ebind (py_float t2) (\<lambda>v2.
        ebind (py_setitem ts_vals (node_id - 1) (v1, v2)) (\<lambda>ts_vals'.
          read_vector_vals n (j + 1) sparse (snd (readline fs)) ts_vals')))))))
      else
        ebind (py_index (split (fst (readline fs))) 1) (\<lambda>t1. ebind (py_float t1) (\<lambda>v1.
        ebind (py_index (split (fst (readline fs))) 2) (\<lambda>t2. ebind (py_float t2) (\<lambda>v2.
        ebind (py_setitem ts_vals (int j) (v1, v2)) (\<lambda>ts_vals'.
          read_vector_vals n (j + 1) sparse (snd (readline fs)) ts_vals'))))))"

text \<open>
  One pass of the loop over the timesteps: \<open>Stop\<close> is the \<open>break\<close> at a missing or
  blank timestep line, \<open>Dropped\<close> a timestep whose values ran short, \<open>Decoded\<close> a
  timestep handed to the dataset writer. A scalar timestep line is sparse when it has
  more than three tokens, a vector one when it has more than two.
\<close>

datatype step = Stop | Dropped stream | Decoded real ts_values stream

definition scalar_layout :: "int \<Rightarrow> string list \<Rightarrow> error + (int \<times> real \<times> bool)" where
  "scalar_layout nn ts_line =
     (if length ts_line > 3 then
        ebind (py_index ts_line 2) (\<lambda>t2. ebind (py_int t2) (\<lambda>num_vals.
        ebind (py_index ts_line 3) (\<lambda>t3. ebind (py_float t3) (\<lambda>default_val.
          Inr (num_vals, default_val, True)))))
      else Inr (nn, 0, False))"

definition read_scalar_step :: "int \<Rightarrow> stream \<Rightarrow> error + step" where
  "read_scalar_step nn fs =
     (if fst (readline fs) = [] \<or> strip (fst (readline fs)) = [] then Inr Stop
      else
        ebind (py_index (split (fst (readline fs))) 0) (\<lambda>t0. ebind (py_float t0) (\<lambda>ts_time.
        ebind (scalar_layout nn (split (fst (readline fs)))) (\<lambda>layout.
        ebind (read_scalar_vals (nat (fst layout)) 0 (snd (snd layout)) (snd (readline fs))
                 (replicate (nat nn) (fst (snd layout)))) (\<lambda>r.
          if fst r then Inr (Decoded ts_time (Scalar (fst (snd r))) (snd (snd r)))
          else Inr (Dropped (snd (snd r))))))))"

definition vector_layout :: "int \<Rightarrow> string list \<Rightarrow> error + (int \<times> (real \<times> real) \<times> bool)" where
  "vector_layout nn ts_line =
     (if length ts_line > 2 then
        ebind (py_index ts_line 2) (\<lambda>t2. ebind (py_int t2) (\<lambda>num_vals.
        ebind (py_index ts_line 3) (\<lambda>t3. ebind (py_float t3) (\<lambda>default_val1.
        ebind (py_index ts_line 4) (\<lambda>t4. ebind (py_float t4) (\<lambda>default_val2.
          Inr (num_vals, (default_val1, default_val2), True)))))))
      else Inr (nn, (0, 0), False))"

definition read_vector_step :: "int \<Rightarrow> stream \<Rightarrow> error + step" where
  "read_vector_step nn fs =
     (if fst (readline fs) = [] \<or> strip (fst (readline fs)) = [] then Inr Stop
      else
        ebind (py_index (split (fst (readline fs))) 0) (\<lambda>t0. ebind (py_float t0) (\<lambda>ts_time.
        ebind (vector_layout nn (split (fst (readline fs)))) (\<lambda>layout.
        ebind (read_vector_vals (nat (fst layout)) 0 (snd (snd layout)) (snd (readline fs))
                 (replicate (nat nn) (fst (snd layout)))) (\<lambda>r.
          if fst r then Inr (Decoded ts_time (Vector (fst (snd r))) (snd (snd r)))
          else Inr (Dropped (snd (snd r))))))))"

text \<open>
  The loop over the timesteps is the same in \<open>read_ascii_scalars\<close> and
  \<open>read_ascii_vectors\<close>; it is written once, over the pass. It returns the timesteps
  appended to the writer and the flag \<open>read_data\<close> of the function.
\<close>

fun read_timesteps ::
  "(stream \<Rightarrow> error + step) \<Rightarrow> nat \<Rightarrow> stream \<Rightarrow> (real \<times> ts_values) list \<Rightarrow> bool \<Rightarrow>
   error + ((real \<times> ts_values) list \<times> bool)" where
  "read_timesteps pass 0 fs writer rd = Inr (writer, rd)"
| "read_timesteps pass (Suc n) fs writer rd =
     (case pass fs of
        Inl e \<Rightarrow> Inl e
      | Inr Stop \<Rightarrow> Inr (writer, rd)
      | Inr (Dropped fs1) \<Rightarrow> read_timesteps pass n fs1 writer rd
      | Inr (Decoded ts_time ts_vals fs1) \<Rightarrow>
          read_timesteps pass n fs1 (writer @ [(ts_time, ts_vals)]) True)"

definition read_ascii_scalars :: "stream \<Rightarrow> string \<Rightarrow> sol_reader \<Rightarrow> sol_reader" where
  "read_ascii_scalars f name st =
     (case read_header f st of
        Inl (e, st1) \<Rightarrow> st1\<lparr>log := log st1 @ [ErrorReadingSolutionFile (read_file st1)]\<rparr>
      | Inr (st1, fs) \<Rightarrow>
          (case read_timesteps (read_scalar_step (num_nodes_sol st1)) (nat (num_ts st1)) fs [] False of
             Inl e \<Rightarrow> st1\<lparr>log := log st1 @ [ErrorReadingSolutionFile (read_file st1)]\<rparr>
           | Inr (writer, rd) \<Rightarrow>
               if rd then
                 st1\<lparr>added := added st1 @
                   [\<lparr>sd_name = name, sd_num_components = 1, sd_timesteps = writer\<rparr>]\<rparr>
               else st1))"


text \<open>
  What the value lines of a sparse scalar timestep say, read off independently of the
  reader (\<open>sparse_records\<close>), and the timesteps that \<open>k\<close> consecutive passes decode
  when none of them stops or drops (\<open>decode_prefix\<close>). A line is \<open>blank\<close> when
  nothing but white space is on it.
\<close>

definition sparse_record_of :: "string \<Rightarrow> (int \<times> real list) option" where
  "sparse_record_of line =
     (case ebind (py_index (split line) 0) py_int of
        Inl _ \<Rightarrow> None
      | Inr node_id \<Rightarrow>
          (case ebind (py_index (split line) 1) py_float of
             Inl _ \<Rightarrow> None
           | Inr v \<Rightarrow> Some (node_id, [v])))"

definition sparse_records :: "nat \<Rightarrow> stream \<Rightarrow> (int \<times> real list) option list" where
  "sparse_records n fs = map (\<lambda>l. sparse_record_of (l @ [CHR 0x0A])) (take n fs)"



definition scenario_C :: "string list" where
  "scenario_C = [''elevation'', ''1 3 1.0 1 1'', ''1.0 1 1 0.0'', ''2 7.5'']"

definition sparse_node_zero :: "string list" where
  "sparse_node_zero = [''elevation'', ''1 3 1.0 1 1'', ''1.0 1 1 0.0'', ''0 7.5'']"


definition cut_short :: "string list" where
  "cut_short =
     [''elevation'', ''3 2 1.0 1 1'', ''1.0 1'', ''1 0.5'', ''2 0.6'', ''2.0 2'', ''1 0.7'']"

definition cut_short_vectors :: "string list" where
  "cut_short_vectors =
     [''velocity'', ''3 2 1.0 1 2'', ''1.0 1'', ''1 0.5 0.1'', ''2 0.6 0.2'', ''2.0 2'',
      ''1 0.7 0.3'', [], '' '']"

definition cut_at_first :: "string list" where
  "cut_at_first = [''elevation'', ''1 3 1.0 1 1'', ''1.0 1'']"

text \<open>
  \<open>run_passes\<close> is the state of the loop after \<open>k\<close> passes none of which stopped
  or raised: the timesteps decoded so far, and the rest of the file. Unlike
  \<open>decode_prefix\<close> it lets a pass drop its timestep. \<open>two_sparse_steps\<close> is a file
  whose second timestep is sparse and names one node twice.
\<close>

fun run_passes ::
  "(stream \<Rightarrow> error + step) \<Rightarrow> nat \<Rightarrow> stream \<Rightarrow> ((real \<times> ts_values) list \<times> stream) option" where
  "run_passes pass 0 fs = Some ([], fs)"
| "run_passes pass (Suc k) fs =
     (case pass fs of
        Inr (Decoded ts_time ts_vals fs1) \<Rightarrow>
          (case run_passes pass k fs1 of
             None \<Rightarrow> None
           | Some (ts, fs2) \<Rightarrow> Some ((ts_time, ts_vals) # ts, fs2))
      | Inr (Dropped fs1) \<Rightarrow> run_passes pass k fs1
      | _ \<Rightarrow> None)"

definition two_sparse_steps :: "string list" where
  "two_sparse_steps =
     [''elevation'', ''2 3 1.0 1 1'', ''1.0 1'', ''1 0.1'', ''2 0.2'', ''3 0.3'',
      ''2.0 2 2 9.0'', ''3 7.5'', ''3 8.5'']"

section \<open>NetCDF solution values: \<open>solution_importer.py\<close> and \<open>fort63_reader.py\<close>\<close>

text \<open>
  A value of a NetCDF variable is a float: a finite number, NaN or an infinity. The
  arrays read from the file are parameters of the functions below (no element is
  masked); a two-dimensional array is a list of rows. \<open>np_equal\<close> is \<open>==\<close> on
  floats (false when a side is NaN), \<open>truthy\<close> the truth value of a float (false
  for zero only), \<open>assign_where\<close> the assignment \<open>a[cond] = v\<close> through a
  boolean index, \<open>np_size\<close> the attribute \<open>size\<close> and \<open>np_stack\<close> the call
  \<open>np.stack([x, y], axis=2)\<close>. Writing a dataset is recorded as the dataset
  written. \<open>null_round_trip\<close> is what the two assignments of the scalar and vector
  readers should amount to for one value.
\<close>

datatype npfloat = Fin real | NaN | PosInf | NegInf

definition ADCIRC_NULL_VALUE :: npfloat where
  "ADCIRC_NULL_VALUE = Fin (- 99999)"

definition np_equal :: "npfloat \<Rightarrow> npfloat \<Rightarrow> bool" where
  "np_equal x y = (x \<noteq> NaN \<and> y \<noteq> NaN \<and> x = y)"

definition np_isnan :: "npfloat \<Rightarrow> bool" where
  "np_isnan x = (x = NaN)"

definition truthy :: "npfloat \<Rightarrow> bool" where
  "truthy x = (x \<noteq> Fin 0)"

definition assign_where :: "('a \<Rightarrow> bool) \<Rightarrow> 'a \<Rightarrow> 'a list list \<Rightarrow> 'a list list" where
  "assign_where cond v a = map (map (\<lambda>x. if cond x then v else x)) a"

definition np_size :: "'a list list \<Rightarrow> nat" where
  "np_size a = sum_list (map length a)"

definition np_stack :: "'a list list \<Rightarrow> 'a list list \<Rightarrow> 'a list list list" where
  "np_stack x y = map (\<lambda>(xs, ys). map (\<lambda>(u, v). [u, v]) (zip xs ys)) (zip x y)"

datatype xmdf_data = Values "npfloat list list" | Components "npfloat list list list"

record xmdf_dataset =
  xd_name :: string
  xd_times :: "real list"
  xd_data :: xmdf_data
  xd_num_components :: nat

definition write_xmdf_dataset :: "string \<Rightarrow> real list \<Rightarrow> xmdf_data \<Rightarrow> nat \<Rightarrow> xmdf_dataset" where
  "write_xmdf_dataset dset_name time_vals data num_components =
     \<lparr>xd_name = dset_name, xd_times = time_vals, xd_data = data, xd_num_components = num_components\<rparr>"

definition read_netcdf_scalars ::
  "string \<Rightarrow> npfloat list list \<Rightarrow> real list \<Rightarrow> string \<Rightarrow> log_entry + xmdf_dataset list" where
  "read_netcdf_scalars filename scalar_data time_vals dset_name =
     (if np_size scalar_data = 0 then Inl (EmptySolutionDataSet filename)
      else
        (let scalar_data1 = assign_where (\<lambda>x. np_equal x ADCIRC_NULL_VALUE) NaN scalar_data;
             scalar_data2 = assign_where np_isnan ADCIRC_NULL_VALUE scalar_data1
         in Inr [write_xmdf_dataset dset_name time_vals (Values scalar_data2) 1]))"

definition read_netcdf_vectors ::
  "string \<Rightarrow> npfloat list list \<Rightarrow> npfloat list list \<Rightarrow> real list \<Rightarrow> string \<Rightarrow>
   log_entry + xmdf_dataset list" where
  "read_netcdf_vectors filename x_data y_data time_vals dset_name =
     (if np_size x_data = 0 then Inl (EmptySolutionDataSet filename)
      else
        (let x_data1 = assign_where (\<lambda>x. np_equal x ADCIRC_NULL_VALUE) NaN x_data;
             y_data1 = assign_where (\<lambda>x. np_equal x ADCIRC_NULL_VALUE) NaN y_data;
             vector_data = np_stack x_data1 y_data1;
             vector_data1 = map (assign_where np_isnan ADCIRC_NULL_VALUE) vector_data
         in Inr [write_xmdf_dataset dset_name time_vals (Components vector_data1) 2]))"

definition read_netcdf_max_scalars ::
  "string \<Rightarrow> npfloat list \<Rightarrow> npfloat list \<Rightarrow> string \<Rightarrow> log_entry + xmdf_dataset list" where
  "read_netcdf_max_scalars filename extreme_grp time_grp dset_name =
     (if length extreme_grp = 0 then Inl (EmptySolutionDataSet filename)
      else
        (let extreme_dset_data = map (\<lambda>x. if truthy x then x else ADCIRC_NULL_VALUE) extreme_grp;
             time_dset_data = map (\<lambda>x. if truthy x then x else ADCIRC_NULL_VALUE) time_grp
         in Inr [write_xmdf_dataset dset_name [0] (Values [extreme_dset_data]) 1,
                 write_xmdf_dataset (dset_name @ '' Time'') [0] (Values [time_dset_data]) 1]))"

datatype fort63_error = ZeroDivisionError | IncorrectNumberOfValues

definition fort63_write_xmdf_dataset ::
  "int \<Rightarrow> string \<Rightarrow> real list \<Rightarrow> npfloat list list \<Rightarrow> fort63_error + xmdf_dataset" where
  "fort63_write_xmdf_dataset geom_num_nodes dset_name time_vals data =
     (if length time_vals = 0 then Inl ZeroDivisionError
      else if real (np_size data) / real (length time_vals) \<noteq> real_of_int geom_num_nodes then
        Inl IncorrectNumberOfValues
      else Inr (write_xmdf_dataset dset_name time_vals (Values data) 1))"

definition fort63_read_netcdf_scalars ::
  "int \<Rightarrow> npfloat list list \<Rightarrow> real list \<Rightarrow> string \<Rightarrow> fort63_error + xmdf_dataset" where
  "fort63_read_netcdf_scalars geom_num_nodes scalar_data time_vals dataset_name =
     (let scalar_data1 = assign_where (\<lambda>x. np_equal x ADCIRC_NULL_VALUE) NaN scalar_data;
          scalar_data2 = assign_where np_isnan ADCIRC_NULL_VALUE scalar_data1
      in fort63_write_xmdf_dataset geom_num_nodes dataset_name time_vals scalar_data2)"

definition null_round_trip :: "npfloat \<Rightarrow> npfloat" where
  "null_round_trip x = (if x = NaN then ADCIRC_NULL_VALUE else x)"

section \<open>Basic facts\<close>

lemma ebind_Inl [simp]: "ebind (Inl e) f = Inl e"
  by (simp add: ebind_def)

lemma ebind_Inr [simp]: "ebind (Inr x) f = f x"
  by (simp add: ebind_def)

lemma ebind_eq_Inr: "ebind m f = Inr y \<longleftrightarrow> (\<exists>x. m = Inr x \<and> f x = Inr y)"
  by (cases m) simp_all

lemmas py_defs = readline_def is_space_def split_def strip_def replace_comma_def partition_bang_def
  digit_val_def parse_nat_def py_int_def parse_decimal_def is_exp_char_def parse_unsigned_float_def
  py_float_def py_index_def py_setitem_def py_lookup_def first_int_def Let_def

lemmas fort13_defs = fort13_read_def fort13_init_def read_att_block_def skip_blank_lines.simps
  get_dset_display_names_def attribute_map_def add_dsets_and_update_sim_def append_dset_def
  unknown_display_names_def mean_def

section \<open>Nodal attribute reader: resolved values\<close>

lemma floats_of_length: "floats_of ts = Inr vs \<Longrightarrow> length vs = length ts"
  by (induction ts arbitrary: vs) (auto simp: ebind_eq_Inr)

lemma floats_of_nth:
  "floats_of ts = Inr vs \<Longrightarrow> j < length ts \<Longrightarrow> py_float (ts ! j) = Inr (vs ! j)"
proof (induction ts arbitrary: vs j)
  case Nil
  then show ?case by simp
next
  case (Cons t ts)
  then show ?case by (cases j) (auto simp: ebind_eq_Inr)
qed

lemma floats_of_intro:
  "\<forall>j < length ts. \<exists>v. py_float (ts ! j) = Inr v \<Longrightarrow> \<exists>vs. floats_of ts = Inr vs"
proof (induction ts)
  case Nil
  then show ?case by simp
next
  case (Cons t ts)
  have "\<forall>j<length ts. \<exists>v. py_float (ts ! j) = Inr v"
    using Cons.prems by (metis Suc_less_eq length_Cons nth_Cons_Suc)
  then obtain vs where "floats_of ts = Inr vs" using Cons.IH by blast
  moreover obtain v where "py_float t = Inr v" using Cons.prems by fastforce
  ultimately show ?case by simp
qed

lemma ebind_InrE:
  assumes "ebind m f = Inr y"
  obtains x where "m = Inr x" and "f x = Inr y"
  using assms by (cases m) simp_all

lemma py_index_eq_Inr: "py_index xs n = Inr x \<longleftrightarrow> n < length xs \<and> xs ! n = x"
  by (auto simp: py_index_def)

lemma py_setitem_in_range:
  "0 \<le> i \<Longrightarrow> i < int (length xs) \<Longrightarrow> py_setitem xs i v = Inr (xs[nat i := v])"
  by (simp add: py_setitem_def Let_def)

lemma py_setitem_length: "py_setitem xs i v = Inr ys \<Longrightarrow> length ys = length xs"
  by (auto simp: py_setitem_def Let_def split: if_splits)

lemma set_components_spec:
  "set_components m k toks idx dv = Inr dv' \<Longrightarrow>
     length dv' = length dv \<and>
     (\<forall>j. k \<le> j \<and> j < k + m \<longrightarrow>
        j < length dv \<and> j + 1 < length toks \<and>
        (\<exists>v. py_float (toks ! (j + 1)) = Inr v \<and> py_setitem (dv ! j) idx v = Inr (dv' ! j))) \<and>
     (\<forall>j < length dv. \<not> (k \<le> j \<and> j < k + m) \<longrightarrow> dv' ! j = dv ! j)"
proof (induction m arbitrary: k dv)
  case 0
  then show ?case by auto
next
  case (Suc m)
  from Suc.prems obtain v row row' where
    tok: "k + 1 < length toks" "py_float (toks ! (k + 1)) = Inr v"
    and row: "k < length dv" "row = dv ! k" "py_setitem row idx v = Inr row'"
    and rest: "set_components m (k + 1) toks idx (dv[k := row']) = Inr dv'"
    by (auto simp: ebind_eq_Inr py_index_eq_Inr)
  note ih = Suc.IH [OF rest]
  have len: "length dv' = length dv" using ih by simp
  have kk: "dv' ! k = row'" using ih row(1) by simp
  show ?case
  proof (intro conjI allI impI)
    show "length dv' = length dv" by (rule len)
  next
    fix j assume j: "k \<le> j \<and> j < k + Suc m"
    show "j < length dv"
    proof (cases "j = k")
      case True then show ?thesis using row by simp
    next
      case False
      then have "k + 1 \<le> j \<and> j < k + 1 + m" using j by simp
      then show ?thesis using ih by simp
    qed
  next
    fix j assume j: "k \<le> j \<and> j < k + Suc m"
    show "j + 1 < length toks"
    proof (cases "j = k")
      case True then show ?thesis using tok by simp
    next
      case False
      then have "k + 1 \<le> j \<and> j < k + 1 + m" using j by simp
      then show ?thesis using ih by simp
    qed
  next
    fix j assume j: "k \<le> j \<and> j < k + Suc m"
    show "\<exists>v. py_float (toks ! (j + 1)) = Inr v \<and> py_setitem (dv ! j) idx v = Inr (dv' ! j)"
    proof (cases "j = k")
      case True
      then show ?thesis using tok row kk by auto
    next
      case False
      then have "k + 1 \<le> j \<and> j < k + 1 + m" using j by simp
      with ih obtain v' where "py_float (toks ! (j + 1)) = Inr v'"
        "py_setitem (dv[k := row'] ! j) idx v' = Inr (dv' ! j)" by blast
      then show ?thesis using False by auto
    qed
  next
    fix j assume j: "j < length dv" "\<not> (k \<le> j \<and> j < k + Suc m)"
    then have "\<not> (k + 1 \<le> j \<and> j < k + 1 + m)" "j \<noteq> k" by auto
    then show "dv' ! j = dv ! j" using ih j(1) by simp
  qed
qed

lemma exception_step:
  assumes sc: "set_components (length dv) 0 toks idx dv = Inr dv1"
  shows "\<exists>vs. floats_of (take (length dv) (drop 1 toks)) = Inr vs \<and> length vs = length dv \<and>
           length dv1 = length dv \<and>
           (\<forall>k < length dv. py_setitem (dv ! k) idx (vs ! k) = Inr (dv1 ! k))"
proof -
  note spec = set_components_spec [OF sc]
  let ?ts = "take (length dv) (drop 1 toks)"
  have toklen: "\<forall>j < length dv. j + 1 < length toks" using spec by simp
  have len: "length ?ts = length dv"
  proof (cases "length dv")
    case 0 then show ?thesis by simp
  next
    case (Suc m)
    then have "m + 1 < length toks" using toklen by simp
    then show ?thesis using Suc by simp
  qed
  have nth: "\<forall>j < length dv. ?ts ! j = toks ! (j + 1)"
  proof (intro allI impI)
    fix j assume j: "j < length dv"
    then have "1 \<le> length toks" using toklen by fastforce
    then show "?ts ! j = toks ! (j + 1)" using j by (simp add: nth_drop)
  qed
  have "\<forall>j < length ?ts. \<exists>v. py_float (?ts ! j) = Inr v"
    using spec len nth by auto
  then obtain vs where vs: "floats_of ?ts = Inr vs" using floats_of_intro by blast
  have lvs: "length vs = length dv" using floats_of_length [OF vs] len by simp
  have "\<forall>k < length dv. py_setitem (dv ! k) idx (vs ! k) = Inr (dv1 ! k)"
  proof (intro allI impI)
    fix k assume k: "k < length dv"
    then obtain v where v: "py_float (toks ! (k + 1)) = Inr v" "py_setitem (dv ! k) idx v = Inr (dv1 ! k)"
      using spec by auto
    have "py_float (?ts ! k) = Inr (vs ! k)" using floats_of_nth [OF vs] k len by simp
    then have "vs ! k = v" using v(1) nth k by simp
    then show "py_setitem (dv ! k) idx (vs ! k) = Inr (dv1 ! k)" using v(2) by simp
  qed
  then show ?thesis using vs lvs spec by blast
qed

lemma last_override_Cons:
  "last_override (Some (nid, vs) # recs) k i =
     (case last_override recs k i of Some v \<Rightarrow> Some v
      | None \<Rightarrow> if nid = int i + 1 then Some (vs ! k) else None)"
  by (auto simp: last_override_def map_add_def split: option.splits)

lemma read_exceptions_spec:
  assumes "read_exceptions n ncomp fs dv = Inr (dv', fs')"
    and "length dv = ncomp" and "\<forall>row \<in> set dv. length row = N"
    and "\<forall>r \<in> set (exception_records n ncomp fs). \<forall>nid vs. r = Some (nid, vs) \<longrightarrow> 1 \<le> nid \<and> nid \<le> int N"
  shows "length dv' = ncomp \<and> n \<le> length fs \<and> fs' = drop n fs \<and>
         (\<forall>k < ncomp. length (dv' ! k) = N \<and>
            (\<forall>i < N. dv' ! k ! i =
               (case last_override (exception_records n ncomp fs) k i of None \<Rightarrow> dv ! k ! i | Some v \<Rightarrow> v)))"
  using assms
proof (induction n arbitrary: fs dv)
  case 0
  then show ?case by (auto simp: exception_records_def last_override_def)
next
  case (Suc n)
  show ?case
  proof (cases fs)
    case Nil
    then show ?thesis using Suc.prems(1)
      by (simp add: readline_def split_def py_index_def replace_comma_def Let_def)
  next
    case (Cons l fs1)
    let ?toks = "split (replace_comma (l @ [CHR 0x0A]))"
    have "ebind (py_index ?toks 0) (\<lambda>t. ebind (py_int t) (\<lambda>node_id.
            ebind (set_components ncomp 0 ?toks (node_id - 1) dv) (\<lambda>dset_vals'.
              read_exceptions n ncomp fs1 dset_vals'))) = Inr (dv', fs')"
      using Suc.prems(1) Cons by (simp add: readline_def Let_def)
    then obtain t where t: "py_index ?toks 0 = Inr t"
      and e1: "ebind (py_int t) (\<lambda>node_id.
            ebind (set_components ncomp 0 ?toks (node_id - 1) dv) (\<lambda>dset_vals'.
              read_exceptions n ncomp fs1 dset_vals')) = Inr (dv', fs')"
      by (rule ebind_InrE)
    from e1 obtain nid where nid0: "py_int t = Inr nid"
      and e2: "ebind (set_components ncomp 0 ?toks (nid - 1) dv) (\<lambda>dset_vals'.
              read_exceptions n ncomp fs1 dset_vals') = Inr (dv', fs')"
      by (rule ebind_InrE)
    from e2 obtain dv1 where sc: "set_components ncomp 0 ?toks (nid - 1) dv = Inr dv1"
      and rest: "read_exceptions n ncomp fs1 dv1 = Inr (dv', fs')"
      by (rule ebind_InrE)
    have nid: "ebind (py_index ?toks 0) py_int = Inr nid" using t nid0 by simp
    from exception_step [of dv ?toks "nid - 1" dv1] sc Suc.prems(2)
    obtain vs where vs: "floats_of (take ncomp (drop 1 ?toks)) = Inr vs" "length vs = ncomp"
      "length dv1 = ncomp" "\<forall>k < ncomp. py_setitem (dv ! k) (nid - 1) (vs ! k) = Inr (dv1 ! k)"
      by auto
    have rec: "record_of ncomp (l @ [CHR 0x0A]) = Some (nid, vs)"
      using nid vs by (simp add: record_of_def)
    have recs: "exception_records (Suc n) ncomp fs = Some (nid, vs) # exception_records n ncomp fs1"
      using Cons rec by (simp add: exception_records_def)
    have mem: "Some (nid, vs) \<in> set (exception_records (Suc n) ncomp fs)"
      unfolding recs by simp
    have rng: "1 \<le> nid" "nid \<le> int N" using Suc.prems(4) mem by blast+
    have lrow: "length (dv ! k) = N" if "k < ncomp" for k
      using that Suc.prems(2,3) nth_mem by blast
    have upd: "dv1 ! k = (dv ! k)[nat (nid - 1) := vs ! k]" if k: "k < ncomp" for k
    proof -
      have a: "py_setitem (dv ! k) (nid - 1) (vs ! k) = Inr (dv1 ! k)" using vs(4) k by blast
      have "0 \<le> nid - 1" "nid - 1 < int (length (dv ! k))" using rng lrow [OF k] by linarith+
      then have "py_setitem (dv ! k) (nid - 1) (vs ! k) = Inr ((dv ! k)[nat (nid - 1) := vs ! k])"
        by (rule py_setitem_in_range)
      with a show ?thesis by simp
    qed
    have rows1: "\<forall>row \<in> set dv1. length row = N"
    proof
      fix row assume "row \<in> set dv1"
      then obtain k where k: "k < length dv1" "row = dv1 ! k" by (metis in_set_conv_nth)
      then have k': "k < ncomp" using vs(3) by simp
      show "length row = N" unfolding k(2) upd [OF k'] using lrow [OF k'] by simp
    qed
    have ids1: "\<forall>r \<in> set (exception_records n ncomp fs1). \<forall>nid vs. r = Some (nid, vs) \<longrightarrow> 1 \<le> nid \<and> nid \<le> int N"
    proof
      fix r assume "r \<in> set (exception_records n ncomp fs1)"
      then have "r \<in> set (exception_records (Suc n) ncomp fs)" unfolding recs by simp
      then show "\<forall>nid vs. r = Some (nid, vs) \<longrightarrow> 1 \<le> nid \<and> nid \<le> int N"
        using Suc.prems(4) by blast
    qed
    note ih = Suc.IH [OF rest vs(3) rows1 ids1]
    from ih have ih1: "length dv' = ncomp" and ih2: "n \<le> length fs1" and ih3: "fs' = drop n fs1"
      and ih4: "\<forall>k < ncomp. length (dv' ! k) = N \<and>
            (\<forall>i < N. dv' ! k ! i =
               (case last_override (exception_records n ncomp fs1) k i of None \<Rightarrow> dv1 ! k ! i | Some v \<Rightarrow> v))"
      by blast+
    have step: "dv1 ! k ! i = (if nid = int i + 1 then vs ! k else dv ! k ! i)"
      if k: "k < ncomp" and i: "i < N" for k i
    proof -
      have "nid = int i + 1 \<longleftrightarrow> nat (nid - 1) = i" using rng by linarith
      then show ?thesis unfolding upd [OF k] using lrow [OF k] i by (simp add: nth_list_update)
    qed
    show ?thesis
    proof (intro conjI allI impI)
      show "length dv' = ncomp" by (rule ih1)
      show "Suc n \<le> length fs" using ih2 Cons by simp
      show "fs' = drop (Suc n) fs" using ih3 Cons by simp
    next
      fix k assume "k < ncomp"
      then show "length (dv' ! k) = N" using ih4 by blast
    next
      fix k i assume k: "k < ncomp" and i: "i < N"
      have a: "dv' ! k ! i = (case last_override (exception_records n ncomp fs1) k i of
                             None \<Rightarrow> dv1 ! k ! i | Some v \<Rightarrow> v)"
        using ih4 k i by blast
      show "dv' ! k ! i = (case last_override (exception_records (Suc n) ncomp fs) k i of
                             None \<Rightarrow> dv ! k ! i | Some v \<Rightarrow> v)"
        unfolding a recs last_override_Cons step [OF k i]
        by (simp split: option.splits)
    qed
  qed
qed

lemma readline_eq: "readline fs = (line_at fs 0, drop 1 fs)"
  by (cases fs) (simp_all add: readline_def line_at_def)

lemma line_at_drop: "line_at (drop m fs) i = line_at fs (m + i)"
  by (auto simp: line_at_def)

lemma read_att_info_spec:
  "read_att_info n fs st = Inr (st', fs') \<Longrightarrow>
     fs' = drop (4 * n) fs \<and>
     map_of (att_defaults st') = map_of (att_defaults st) ++ map_of (rev (att_info_entries n fs)) \<and>
     st' = st\<lparr>att_defaults := att_defaults st'\<rparr>"
proof (induction n arbitrary: fs st)
  case 0
  then show ?case by simp
next
  case (Suc n)
  let ?name = "hd (split (line_at fs 0))"
  let ?toks = "split (replace_comma (line_at fs 3))"
  from Suc.prems have "\<exists>vs. floats_of ?toks = Inr vs \<and>
      read_att_info n (drop 4 fs)
        (st\<lparr>att_defaults := AList.update ?name vs (att_defaults st)\<rparr>) = Inr (st', fs')"
    by (auto simp: readline_eq line_at_drop py_index_def hd_conv_nth eval_nat_numeral
             split: sum.splits if_splits)
  then obtain vs where vs: "floats_of ?toks = Inr vs"
    and rest: "read_att_info n (drop 4 fs)
                 (st\<lparr>att_defaults := AList.update ?name vs (att_defaults st)\<rparr>) = Inr (st', fs')"
    by blast
  note ih = Suc.IH [OF rest]
  have e: "att_info_entries (Suc n) fs = (?name, vs) # att_info_entries n (drop 4 fs)"
    using vs by (simp add: floats_or_nil_def)
  have a: "fs' = drop (4 * Suc n) fs" using ih by (simp add: add.commute)
  have b: "map_of (att_defaults st') =
           map_of (att_defaults st) ++ map_of (rev (att_info_entries (Suc n) fs))"
  proof
    fix x
    have "map_of (att_defaults st') x =
          (map_of (AList.update ?name vs (att_defaults st)) ++
             map_of (rev (att_info_entries n (drop 4 fs)))) x"
      using ih by simp
    then show "map_of (att_defaults st') x =
          (map_of (att_defaults st) ++ map_of (rev (att_info_entries (Suc n) fs))) x"
      unfolding e by (simp add: update_conv' map_add_def split: option.splits)
  qed
  have c: "st' = st\<lparr>att_defaults := att_defaults st'\<rparr>"
  proof -
    from ih have "st' = (st\<lparr>att_defaults := AList.update ?name vs (att_defaults st)\<rparr>)
                          \<lparr>att_defaults := att_defaults st'\<rparr>" by blast
    then show ?thesis by simp
  qed
  show ?case using a b c by blast
qed

lemma skip_blank_lines_spec:
  assumes "skip_blank_lines fs = Some r"
  shows "\<exists>name_line. dropWhile (\<lambda>l. split (l @ [CHR 0x0A]) = []) fs = name_line # snd r \<and>
           fst r = split (name_line @ [CHR 0x0A]) \<and> fst r \<noteq> []"
proof (rule skip_blank_lines.raw_induct
         [where P = "\<lambda>fs r. \<exists>name_line.
             dropWhile (\<lambda>l. split (l @ [CHR 0x0A]) = []) fs = name_line # snd r \<and>
             fst r = split (name_line @ [CHR 0x0A]) \<and> fst r \<noteq> []", OF _ assms])
  fix skip :: "stream \<Rightarrow> (string list \<times> stream) option" and gs :: stream and q
  assume ih: "\<And>gs q. skip gs = Some q \<Longrightarrow> \<exists>name_line.
             dropWhile (\<lambda>l. split (l @ [CHR 0x0A]) = []) gs = name_line # snd q \<and>
             fst q = split (name_line @ [CHR 0x0A]) \<and> fst q \<noteq> []"
    and step: "(if split (fst (readline gs)) = [] then skip (snd (readline gs))
               else Some (split (fst (readline gs)), snd (readline gs))) = Some q"
  show "\<exists>name_line. dropWhile (\<lambda>l. split (l @ [CHR 0x0A]) = []) gs = name_line # snd q \<and>
             fst q = split (name_line @ [CHR 0x0A]) \<and> fst q \<noteq> []"
  proof (cases gs)
    case Nil
    then have "skip [] = Some q" using step by (simp add: readline_def split_def)
    from ih [OF this] show ?thesis using Nil by simp
  next
    case (Cons l rest)
    show ?thesis
    proof (cases "split (l @ [CHR 0x0A]) = []")
      case True
      then have "skip rest = Some q" using step Cons by (simp add: readline_def)
      from ih [OF this] show ?thesis using True Cons by simp
    next
      case False
      then have "q = (split (l @ [CHR 0x0A]), rest)" using step Cons by (auto simp add: readline_def)
      then show ?thesis using False Cons by simp
    qed
  qed
qed

lemma dsets_of_append_dset:
  "dsets_of (append_dset a d m) a' = (if a' = a then dsets_of m a @ [d] else dsets_of m a')"
  by (simp add: dsets_of_def append_dset_def update_conv' split: option.splits)

lemma create_datasets_spec:
  "create_datasets n j a names dv st = Inr st' \<Longrightarrow>
     att_defaults st' = att_defaults st \<and> num_nodes13 st' = num_nodes13 st \<and>
     num_atts13 st' = num_atts13 st \<and> built_data13 st' = built_data13 st \<and>
     (\<forall>a'. dsets_of (att_dsets st') a' =
        (if a' = a then
           dsets_of (att_dsets st) a @
             map (\<lambda>k. \<lparr>ds_name = names ! k, ds_timesteps = [(0, dv ! k)]\<rparr>) [j..<j + n]
         else dsets_of (att_dsets st) a'))"
proof (induction n arbitrary: j st)
  case 0
  then show ?case by simp
next
  case (Suc n)
  let ?d = "\<lparr>ds_name = names ! j, ds_timesteps = [(0, dv ! j)]\<rparr>"
  let ?st1 = "st\<lparr>datasets13 := AList.update (names ! j) ?d (datasets13 st),
                 att_dsets := append_dset a ?d (att_dsets st)\<rparr>"
  from Suc.prems have rest: "create_datasets n (j + 1) a names dv ?st1 = Inr st'"
    by (auto simp: py_index_def Let_def split: sum.splits if_splits)
  note ih = Suc.IH [OF rest]
  have up: "[j..<j + Suc n] = j # [j + 1..<j + 1 + n]" by (simp add: upt_conv_Cons)
  show ?case unfolding up using ih by (simp add: dsets_of_append_dset)
qed

lemma exception_records_take:
  "exception_records (length (take n fs)) k (take n fs) = exception_records n k fs"
  by (cases "n \<le> length fs") (simp_all add: exception_records_def min_def)

lemma resolved_values_eq:
  assumes "length row = N"
    and "\<forall>i < N. row ! i = (case last_override recs k i of None \<Rightarrow> d | Some v \<Rightarrow> v)"
    and "d = defaults ! k"
  shows "row = resolved_values N defaults recs k"
  using assms by (auto simp: resolved_values_def list_eq_iff_nth_eq)

lemma read_att_block_spec:
  assumes blk: "read_att_block toks fs st = Inr (st', fs')"
  shows "\<exists>count_line rest c defaults.
           fs = count_line # rest \<and> first_int (count_line @ [CHR 0x0A]) = Inr c \<and> toks \<noteq> [] \<and>
           map_of (att_defaults st) (hd toks) = Some defaults \<and>
           att_defaults st' = att_defaults st \<and> num_nodes13 st' = num_nodes13 st \<and>
           num_atts13 st' = num_atts13 st \<and> built_data13 st' = built_data13 st \<and>
           ((\<forall>r \<in> set (exception_records (nat c) (length defaults) rest).
               \<forall>node_id vs. r = Some (node_id, vs) \<longrightarrow>
                 1 \<le> node_id \<and> node_id \<le> int (nat (num_nodes13 st))) \<longrightarrow>
              nat c \<le> length rest \<and> fs' = drop (nat c) rest \<and>
              (\<forall>a. dsets_of (att_dsets st') a =
                     dsets_of (att_dsets st) a @
                       (if a = hd toks then
                          expected_datasets (nat (num_nodes13 st)) (hd toks) defaults (take (nat c) rest)
                        else [])))"
proof -
  let ?N = "nat (num_nodes13 st)"
  obtain name where n: "py_index toks 0 = Inr name"
    using blk by (cases "py_index toks 0") (simp_all add: read_att_block_def)
  then have toks: "toks \<noteq> []" and name: "name = hd toks"
    by (auto simp: py_index_def hd_conv_nth split: if_splits)
  obtain defaults where d: "py_lookup (att_defaults st) name = Inr defaults"
    using blk n by (cases "py_lookup (att_defaults st) name") (simp_all add: read_att_block_def)
  then have defs: "map_of (att_defaults st) (hd toks) = Some defaults"
    unfolding name by (simp add: py_lookup_def split: option.splits)
  obtain c where c: "first_int (fst (readline fs)) = Inr c"
    using blk n d
    by (cases "first_int (fst (readline fs))") (simp_all add: read_att_block_def Let_def split_beta)
  have "fs \<noteq> []"
  proof
    assume "fs = []"
    then show False using c by (simp add: readline_def first_int_def split_def py_index_def)
  qed
  then obtain count_line rest where fs: "fs = count_line # rest" by (cases fs) auto
  have c': "first_int (count_line @ [CHR 0x0A]) = Inr c" using c fs by (simp add: readline_def)
  have rl: "fst (readline fs) = count_line @ [CHR 0x0A]" "snd (readline fs) = rest"
    using fs by (simp_all add: readline_def)
  let ?dv = "map (\<lambda>d. replicate ?N d) defaults"
  obtain dv' fs2 where ex: "read_exceptions (nat c) (length defaults) rest ?dv = Inr (dv', fs2)"
    using blk n d c rl
    by (cases "read_exceptions (nat c) (length defaults) rest ?dv")
       (auto simp add: read_att_block_def Let_def split_beta)
  let ?known = "get_dset_display_names name"
  let ?st1 = "if ?known = [] then st\<lparr>warnings13 := warnings13 st @ [name]\<rparr> else st"
  have fin: "(if name = ''sea_surface_height_above_geoid'' then
               (case py_index dv' 0 of
                  Inl e \<Rightarrow> Inl (e, st)
                | Inr v0 \<Rightarrow>
                    Inr (st\<lparr>nodal_atts :=
                              AList.update ''sea_surface_height_above_geoid'' (mean v0)
                                (AList.update ''sea_surface_height_above_geoid_on'' 1
                                   (nodal_atts st))\<rparr>, fs2))
             else
               (case create_datasets (length defaults) 0 name
                       (display_names_of name (length defaults)) dv' ?st1 of
                  Inl x \<Rightarrow> Inl x
                | Inr st2 \<Rightarrow> Inr (st2, fs2))) = Inr (st', fs')"
    using blk n d c rl ex
    by (auto simp add: read_att_block_def Let_def split_beta display_names_of_def
             split: if_splits)
  have fs2: "fs' = fs2" using fin by (auto split: if_splits sum.splits)
  have keep: "att_defaults st' = att_defaults st \<and> num_nodes13 st' = num_nodes13 st \<and>
              num_atts13 st' = num_atts13 st \<and> built_data13 st' = built_data13 st"
  proof (cases "name = ''sea_surface_height_above_geoid''")
    case True
    then show ?thesis using fin by (auto split: sum.splits)
  next
    case False
    then obtain st2 where cd: "create_datasets (length defaults) 0 name
                       (display_names_of name (length defaults)) dv' ?st1 = Inr st2" and "st' = st2"
      using fin by (auto split: sum.splits)
    then show ?thesis using create_datasets_spec [OF cd] by (auto split: if_splits)
  qed
  have vals: "nat c \<le> length rest \<and> fs' = drop (nat c) rest \<and>
              (\<forall>a. dsets_of (att_dsets st') a =
                     dsets_of (att_dsets st) a @
                       (if a = hd toks then
                          expected_datasets ?N (hd toks) defaults (take (nat c) rest)
                        else []))"
    if ids: "\<forall>r \<in> set (exception_records (nat c) (length defaults) rest).
               \<forall>node_id vs. r = Some (node_id, vs) \<longrightarrow> 1 \<le> node_id \<and> node_id \<le> int ?N"
  proof -
    have len: "length ?dv = length defaults" by simp
    have rows: "\<forall>row \<in> set ?dv. length row = ?N" by auto
    note spec = read_exceptions_spec [OF ex len rows ids]
    have s1: "nat c \<le> length rest" and s2: "fs2 = drop (nat c) rest"
      and s3: "\<forall>k < length defaults. length (dv' ! k) = ?N \<and>
            (\<forall>i < ?N. dv' ! k ! i =
               (case last_override (exception_records (nat c) (length defaults) rest) k i of
                  None \<Rightarrow> ?dv ! k ! i | Some v \<Rightarrow> v))"
      using spec by blast+
    have row: "dv' ! k = resolved_values ?N defaults
                 (exception_records (nat c) (length defaults) rest) k"
      if k: "k < length defaults" for k
    proof (rule resolved_values_eq [where d = "defaults ! k"])
      show "length (dv' ! k) = ?N" using s3 k by blast
      show "\<forall>i < ?N. dv' ! k ! i =
               (case last_override (exception_records (nat c) (length defaults) rest) k i of
                  None \<Rightarrow> defaults ! k | Some v \<Rightarrow> v)"
      proof (intro allI impI)
        fix i assume i: "i < ?N"
        have "?dv ! k ! i = defaults ! k" using k i by simp
        moreover have "dv' ! k ! i =
               (case last_override (exception_records (nat c) (length defaults) rest) k i of
                  None \<Rightarrow> ?dv ! k ! i | Some v \<Rightarrow> v)"
          using s3 k i by blast
        ultimately show "dv' ! k ! i =
               (case last_override (exception_records (nat c) (length defaults) rest) k i of
                  None \<Rightarrow> defaults ! k | Some v \<Rightarrow> v)"
          by (simp split: option.splits)
      qed
      show "defaults ! k = defaults ! k" ..
    qed
    have ds: "\<forall>a. dsets_of (att_dsets st') a =
                     dsets_of (att_dsets st) a @
                       (if a = hd toks then
                          expected_datasets ?N (hd toks) defaults (take (nat c) rest)
                        else [])"
    proof (cases "name = ''sea_surface_height_above_geoid''")
      case True
      then have "att_dsets st' = att_dsets st" using fin by (auto split: sum.splits)
      then show ?thesis using True name by (simp add: expected_datasets_def)
    next
      case False
      then obtain st2 where cd: "create_datasets (length defaults) 0 name
                       (display_names_of name (length defaults)) dv' ?st1 = Inr st2" and st2: "st' = st2"
        using fin by (auto split: sum.splits)
      have same: "att_dsets ?st1 = att_dsets st" by simp
      have m: "map (\<lambda>k. \<lparr>ds_name = display_names_of name (length defaults) ! k,
                           ds_timesteps = [(0, dv' ! k)]\<rparr>) [0..<0 + length defaults] =
               expected_datasets ?N name defaults (take (nat c) rest)"
      proof -
        have "expected_datasets ?N name defaults (take (nat c) rest) =
              map (\<lambda>k. \<lparr>ds_name = display_names_of name (length defaults) ! k,
                           ds_timesteps =
                             [(0, resolved_values ?N defaults
                                    (exception_records (nat c) (length defaults) rest) k)]\<rparr>)
                [0..<length defaults]"
          unfolding expected_datasets_def exception_records_take using False by simp
        then show ?thesis using row by simp
      qed
      show ?thesis
      proof
        fix a
        have "dsets_of (att_dsets st') a =
                (if a = name then
                   dsets_of (att_dsets ?st1) name @
                     map (\<lambda>k. \<lparr>ds_name = display_names_of name (length defaults) ! k,
                                 ds_timesteps = [(0, dv' ! k)]\<rparr>) [0..<0 + length defaults]
                 else dsets_of (att_dsets ?st1) a)"
          using create_datasets_spec [OF cd] st2 by blast
        then show "dsets_of (att_dsets st') a =
                     dsets_of (att_dsets st) a @
                       (if a = hd toks then
                          expected_datasets ?N (hd toks) defaults (take (nat c) rest)
                        else [])"
          using m same name by simp
      qed
    qed
    show ?thesis using s1 s2 fs2 ds by blast
  qed
  show ?thesis using fs c' toks defs keep vals by blast
qed

lemma read_att_values_spec:
  assumes "read_att_values n fs st = Some (Inr (st', fs'))"
    and "\<forall>b \<in> set (value_blocks n fs).
           \<forall>r \<in> set (exception_records (length (snd b))
                        (length (defaults_in (att_defaults st) (fst b))) (snd b)).
             \<forall>node_id vs. r = Some (node_id, vs) \<longrightarrow>
               1 \<le> node_id \<and> node_id \<le> int (nat (num_nodes13 st))"
  shows "att_defaults st' = att_defaults st \<and> num_nodes13 st' = num_nodes13 st \<and>
         num_atts13 st' = num_atts13 st \<and> built_data13 st' = built_data13 st \<and>
         length (value_blocks n fs) = n \<and>
         (\<forall>a. dsets_of (att_dsets st') a =
                dsets_of (att_dsets st) a @
                  concat (map (\<lambda>b. expected_datasets (nat (num_nodes13 st)) (fst b)
                                      (defaults_in (att_defaults st) (fst b)) (snd b))
                            (filter (\<lambda>b. fst b = a) (value_blocks n fs))))"
  using assms
proof (induction n arbitrary: fs st)
  case 0
  then show ?case by simp
next
  case (Suc n)
  let ?N = "nat (num_nodes13 st)"
  from Suc.prems(1) obtain toks fs1 st1 fs2 where
    sk: "skip_blank_lines fs = Some (toks, fs1)"
    and blk: "read_att_block toks fs1 st = Inr (st1, fs2)"
    and rest: "read_att_values n fs2 st1 = Some (Inr (st', fs'))"
    by (auto split: option.splits sum.splits)
  from skip_blank_lines_spec [OF sk] obtain name_line where
    dw: "dropWhile (\<lambda>l. split (l @ [CHR 0x0A]) = []) fs = name_line # fs1"
    and toks: "toks = split (name_line @ [CHR 0x0A])"
    by auto
  from read_att_block_spec [OF blk] obtain count_line rs c defaults where
    fs1: "fs1 = count_line # rs" and c: "first_int (count_line @ [CHR 0x0A]) = Inr c"
    and defs: "map_of (att_defaults st) (hd toks) = Some defaults"
    and keep: "att_defaults st1 = att_defaults st" "num_nodes13 st1 = num_nodes13 st"
    and keep2: "num_atts13 st1 = num_atts13 st" "built_data13 st1 = built_data13 st"
    and vals: "(\<forall>r \<in> set (exception_records (nat c) (length defaults) rs).
               \<forall>node_id vs. r = Some (node_id, vs) \<longrightarrow>
                 1 \<le> node_id \<and> node_id \<le> int ?N) \<longrightarrow>
              nat c \<le> length rs \<and> fs2 = drop (nat c) rs \<and>
              (\<forall>a. dsets_of (att_dsets st1) a =
                     dsets_of (att_dsets st) a @
                       (if a = hd toks then
                          expected_datasets ?N (hd toks) defaults (take (nat c) rs)
                        else []))"
    by blast
  have vb: "value_blocks (Suc n) fs =
              (hd toks, take (nat c) rs) # value_blocks n (drop (nat c) rs)"
    using dw fs1 c toks by simp
  have di: "defaults_in (att_defaults st) (hd toks) = defaults"
    using defs by (simp add: defaults_in_def)
  have ids0: "\<forall>r \<in> set (exception_records (length (take (nat c) rs)) (length defaults)
                        (take (nat c) rs)).
             \<forall>node_id vs. r = Some (node_id, vs) \<longrightarrow> 1 \<le> node_id \<and> node_id \<le> int ?N"
    using Suc.prems(2) unfolding vb di [symmetric] by simp
  then have ids1: "\<forall>r \<in> set (exception_records (nat c) (length defaults) rs).
               \<forall>node_id vs. r = Some (node_id, vs) \<longrightarrow> 1 \<le> node_id \<and> node_id \<le> int ?N"
    unfolding exception_records_take .
  from vals ids1 have f2: "fs2 = drop (nat c) rs"
    and d1: "\<forall>a. dsets_of (att_dsets st1) a =
                     dsets_of (att_dsets st) a @
                       (if a = hd toks then
                          expected_datasets ?N (hd toks) defaults (take (nat c) rs)
                        else [])"
    by blast+
  have ids2: "\<forall>b \<in> set (value_blocks n fs2).
           \<forall>r \<in> set (exception_records (length (snd b))
                        (length (defaults_in (att_defaults st1) (fst b))) (snd b)).
             \<forall>node_id vs. r = Some (node_id, vs) \<longrightarrow>
               1 \<le> node_id \<and> node_id \<le> int (nat (num_nodes13 st1))"
    using Suc.prems(2) unfolding vb keep f2 by simp
  note ih = Suc.IH [OF rest ids2]
  from ih have i1: "att_defaults st' = att_defaults st1" and i2: "num_nodes13 st' = num_nodes13 st1"
    and i5: "num_atts13 st' = num_atts13 st1" and i6: "built_data13 st' = built_data13 st1"
    and i3: "length (value_blocks n fs2) = n"
    and i4: "\<forall>a. dsets_of (att_dsets st') a =
                dsets_of (att_dsets st1) a @
                  concat (map (\<lambda>b. expected_datasets (nat (num_nodes13 st1)) (fst b)
                                      (defaults_in (att_defaults st1) (fst b)) (snd b))
                            (filter (\<lambda>b. fst b = a) (value_blocks n fs2)))"
    by blast+
  show ?case
  proof (intro conjI allI)
    show "att_defaults st' = att_defaults st" using i1 keep by simp
    show "num_nodes13 st' = num_nodes13 st" using i2 keep by simp
    show "num_atts13 st' = num_atts13 st" using i5 keep2 by simp
    show "built_data13 st' = built_data13 st" using i6 keep2 by simp
    show "length (value_blocks (Suc n) fs) = Suc n" unfolding vb using i3 f2 by simp
  next
    fix a
    have "dsets_of (att_dsets st') a =
            (dsets_of (att_dsets st) a @
               (if a = hd toks then expected_datasets ?N (hd toks) defaults (take (nat c) rs)
                else [])) @
            concat (map (\<lambda>b. expected_datasets ?N (fst b)
                                (defaults_in (att_defaults st) (fst b)) (snd b))
                      (filter (\<lambda>b. fst b = a) (value_blocks n fs2)))"
      using i4 d1 keep by simp
    then show "dsets_of (att_dsets st') a =
                dsets_of (att_dsets st) a @
                  concat (map (\<lambda>b. expected_datasets ?N (fst b)
                                      (defaults_in (att_defaults st) (fst b)) (snd b))
                            (filter (\<lambda>b. fst b = a) (value_blocks (Suc n) fs)))"
      unfolding vb f2 using di by auto
  qed
qed


lemma resolved_values_nth:
  "length (resolved_values N d recs k) = N \<and>
   (\<forall>i < N. resolved_values N d recs k ! i =
      (case last_override recs k i of None \<Rightarrow> d ! k | Some v \<Rightarrow> v))"
  by (simp add: resolved_values_def)

lemma fort13_read_anatomy:
  assumes rd: "fort13_read (Some ls) (fort13_init g) = Some (Inr st)"
    and nn: "first_int (line_at ls 1) = Inr nn"
    and na: "first_int (line_at ls 2) = Inr na"
  shows "\<exists>st3 fs4 st4 fs5.
           0 < nn \<and> nn = g \<and>
           read_att_info (nat na) (drop 3 ls)
             ((fort13_init g)\<lparr>num_nodes13 := nn, num_atts13 := na\<rparr>) = Inr (st3, fs4) \<and>
           read_att_values (nat na) fs4 st3 = Some (Inr (st4, fs5)) \<and>
           st = add_dsets_and_update_sim st4"
proof -
  have ne: "ls \<noteq> []" using rd by (auto simp: fort13_read_def)
  have l2: "fst (readline (snd (readline ls))) = line_at ls 1"
    and l3: "fst (readline (snd (readline (snd (readline ls))))) = line_at ls 2"
    and f3: "snd (readline (snd (readline (snd (readline ls))))) = drop 3 ls"
    by (simp_all add: readline_eq line_at_drop eval_nat_numeral)
  show ?thesis
    using rd ne nn na
    by (auto simp: fort13_read_def Let_def split_beta l2 l3 f3 fort13_init_def
             split: if_splits sum.splits option.splits)
qed

lemma wind_drag_names:
  "unknown_display_names ''wind_drag'' (Suc (Suc 0)) = [''wind_drag (1)'', ''wind_drag (2)'']"
  by code_simp

lemma two_attribute_read:
  "fort13_read (Some two_attribute_file) (fort13_init 4) = Some (Inr two_attribute_result)"
  by (simp add: two_attribute_file_def two_attribute_result_def py_defs fort13_read_def
        fort13_init_def read_att_block_def skip_blank_lines.simps get_dset_display_names_def
        attribute_map_def add_dsets_and_update_sim_def append_dset_def mean_def
        wind_drag_names eval_nat_numeral)




lemma two_attribute_blocks:
  "value_blocks (nat 2) (drop (3 + 4 * nat 2) two_attribute_file) =
     [(''mannings_n_at_sea_floor'', [''2 0.03'', ''2 0.04'']),
      (''wind_drag'', [''1 5.0 6.0'', ''4, 7.0, 8.0''])]"
  by (simp add: two_attribute_file_def py_defs eval_nat_numeral)




lemma two_attribute_defaults:
  "declared_defaults 2 two_attribute_file ''mannings_n_at_sea_floor'' = [0.02]"
  "declared_defaults 2 two_attribute_file ''wind_drag'' = [1, 2]"
  by (simp_all add: two_attribute_file_def declared_defaults_def defaults_in_def line_at_def
        floats_or_nil_def py_defs eval_nat_numeral)



lemma two_attribute_records:
  "exception_records 2 1 [''2 0.03'', ''2 0.04''] = [Some (2, [0.03]), Some (2, [0.04])]"
  "exception_records 2 2 [''1 5.0 6.0'', ''4, 7.0, 8.0''] = [Some (1, [5, 6]), Some (4, [7, 8])]"
  by (simp_all add: exception_records_def record_of_def py_defs eval_nat_numeral)

lemma two_attribute_records_Suc:
  "exception_records (Suc (Suc 0)) (Suc 0) [''2 0.03'', ''2 0.04''] =
     [Some (2, [0.03]), Some (2, [0.04])]"
  "exception_records (Suc (Suc 0)) (Suc (Suc 0)) [''1 5.0 6.0'', ''4, 7.0, 8.0''] =
     [Some (1, [5, 6]), Some (4, [7, 8])]"
  using two_attribute_records by (simp_all add: eval_nat_numeral)


section \<open>Nodal attribute reader: header validation\<close>

lemma fort13_header_checks:
  assumes "first_int (l2 @ [CHR 0x0A]) = Inr nn" and "first_int (l3 @ [CHR 0x0A]) = Inr na"
  shows "nn \<le> 0 \<Longrightarrow>
           fort13_read (Some (l1 # l2 # l3 # rest)) (fort13_init g) =
             Some (Inl (InvalidFile, (fort13_init g)\<lparr>num_nodes13 := nn, num_atts13 := na\<rparr>))"
    and "0 < nn \<Longrightarrow> nn \<noteq> g \<Longrightarrow>
           fort13_read (Some (l1 # l2 # l3 # rest)) (fort13_init g) =
             Some (Inl (NodeCountMismatch, (fort13_init g)\<lparr>num_nodes13 := nn, num_atts13 := na\<rparr>))"
    and "0 < nn \<Longrightarrow> nn = g \<Longrightarrow> na = 0 \<Longrightarrow>
           fort13_read (Some (l1 # l2 # l3 # rest)) (fort13_init g) =
             Some (Inl (NoAttributes, (fort13_init g)\<lparr>num_nodes13 := nn, num_atts13 := na\<rparr>))"
  using assms by (simp_all add: fort13_read_def readline_def fort13_init_def)

text \<open>
  C3. The claim: a header attribute count that is not positive raises the
  "no nodal attributes" error and the datasets stay empty. The reader compares the
  attribute count with zero only: on the file with header node count 10 and attribute
  count -1, read against a geometry of 10 nodes, both passes run zero times and the read
  returns normally with no dataset and no error.
\<close>

theorem fort13_negative_attribute_count:
  "fort13_read (Some [''grid'', ''10'', ''-1'']) (fort13_init 10) =
     Some (Inr \<lparr>geom_num_nodes13 = 10, num_nodes13 = 10, num_atts13 = - 1, att_defaults = [],
                att_dsets = [], datasets13 = [], built_data13 = [], nodal_atts = [],
                warnings13 = []\<rparr>)"
  by (simp add: py_defs fort13_defs)

text \<open>
  C4, as amended. For every nodal attribute file that is read without error and whose
  exception records all name a node between 1 and the header node count: the node count
  of the reader is the one in the header and equals the geometry's; the second section
  holds one block for each attribute of the header; and the datasets stored for an
  attribute are, block after block and component after component, the datasets of
  \<open>expected_datasets\<close>: named by the display name of the component, with one array
  of the length of the node count whose index \<open>i\<close> holds the value that the last
  exception record for node \<open>i + 1\<close> gives to the component, and the component's
  declared default when no record of the block names that node. The file of scenario B
  (\<open>bottom_roughness_length\<close>, default 0.025, exception node 5 with 0.05, 10 nodes)
  yields the single dataset \<open>Z0b_var\<close> with 0.05 at index 4 and 0.025 elsewhere.
\<close>

theorem nodal_attribute_values_resolved:
  assumes rd: "fort13_read (Some ls) (fort13_init g) = Some (Inr st)"
    and nn: "first_int (line_at ls 1) = Inr nn"
    and na: "first_int (line_at ls 2) = Inr na"
    and ids: "\<forall>b \<in> set (value_blocks (nat na) (drop (3 + 4 * nat na) ls)).
           \<forall>r \<in> set (exception_records (length (snd b))
                        (length (declared_defaults (nat na) ls (fst b))) (snd b)).
             \<forall>node_id vs. r = Some (node_id, vs) \<longrightarrow> 1 \<le> node_id \<and> node_id \<le> nn"
  shows "num_nodes13 st = nn \<and> nn = g \<and> 0 < nn \<and> num_atts13 st = na \<and>
         length (value_blocks (nat na) (drop (3 + 4 * nat na) ls)) = nat na \<and>
         (\<forall>a. defaults_in (att_defaults st) a = declared_defaults (nat na) ls a) \<and>
         (\<forall>a. dsets_of (att_dsets st) a =
                concat (map (\<lambda>b. expected_datasets (nat nn) (fst b)
                                    (declared_defaults (nat na) ls (fst b)) (snd b))
                          (filter (\<lambda>b. fst b = a)
                             (value_blocks (nat na) (drop (3 + 4 * nat na) ls))))) \<and>
         built_data13 st = concat (map snd (att_dsets st)) \<and>
         (\<forall>N d recs k. length (resolved_values N d recs k) = N \<and>
            (\<forall>i < N. resolved_values N d recs k ! i =
               (case last_override recs k i of None \<Rightarrow> d ! k | Some v \<Rightarrow> v))) \<and>
         fort13_read (Some scenario_B) (fort13_init 10) =
           Some (Inr \<lparr>geom_num_nodes13 = 10, num_nodes13 = 10, num_atts13 = 1,
                  att_defaults = [(''bottom_roughness_length'', [0.025])],
                  att_dsets = [(''bottom_roughness_length'',
                    [\<lparr>ds_name = ''Z0b_var'', ds_timesteps =
                       [(0, [0.025, 0.025, 0.025, 0.025, 0.05, 0.025, 0.025, 0.025, 0.025, 0.025])]\<rparr>])],
                  datasets13 = [(''Z0b_var'',
                    \<lparr>ds_name = ''Z0b_var'', ds_timesteps =
                       [(0, [0.025, 0.025, 0.025, 0.025, 0.05, 0.025, 0.025, 0.025, 0.025, 0.025])]\<rparr>)],
                  built_data13 =
                    [\<lparr>ds_name = ''Z0b_var'', ds_timesteps =
                       [(0, [0.025, 0.025, 0.025, 0.025, 0.05, 0.025, 0.025, 0.025, 0.025, 0.025])]\<rparr>],
                  nodal_atts = [], warnings13 = []\<rparr>)"
proof -
  let ?st2 = "(fort13_init g)\<lparr>num_nodes13 := nn, num_atts13 := na\<rparr>"
  let ?vs = "drop (3 + 4 * nat na) ls"
  from fort13_read_anatomy [OF rd nn na] obtain st3 fs4 st4 fs5 where
    pos: "0 < nn" and g: "nn = g"
    and info: "read_att_info (nat na) (drop 3 ls) ?st2 = Inr (st3, fs4)"
    and vals: "read_att_values (nat na) fs4 st3 = Some (Inr (st4, fs5))"
    and fin: "st = add_dsets_and_update_sim st4"
    by blast
  note i = read_att_info_spec [OF info]
  have fs4: "fs4 = ?vs" using i by (simp add: add.commute)
  have st3: "st3 = ?st2\<lparr>att_defaults := att_defaults st3\<rparr>" using i by blast
  have n3: "num_nodes13 st3 = nn" and a3: "num_atts13 st3 = na"
    and d3: "att_dsets st3 = []" and b3: "built_data13 st3 = []"
    by (subst st3, simp add: fort13_init_def)+
  have m3: "map_of (att_defaults st3) = map_of (rev (att_info_entries (nat na) (drop 3 ls)))"
    using i by (simp add: fort13_init_def)
  have dd: "defaults_in (att_defaults st3) a = declared_defaults (nat na) ls a" for a
    by (simp add: defaults_in_def declared_defaults_def m3)
  have nnat: "int (nat nn) = nn" using pos by simp
  have ids3: "\<forall>b \<in> set (value_blocks (nat na) fs4).
           \<forall>r \<in> set (exception_records (length (snd b))
                        (length (defaults_in (att_defaults st3) (fst b))) (snd b)).
             \<forall>node_id vs. r = Some (node_id, vs) \<longrightarrow>
               1 \<le> node_id \<and> node_id \<le> int (nat (num_nodes13 st3))"
    unfolding fs4 dd n3 nnat by (rule ids)
  note v = read_att_values_spec [OF vals ids3]
  have v1: "att_defaults st4 = att_defaults st3" and v2: "num_nodes13 st4 = num_nodes13 st3"
    and v3: "num_atts13 st4 = num_atts13 st3" and v4: "built_data13 st4 = built_data13 st3"
    and v5: "length (value_blocks (nat na) fs4) = nat na"
    and v6: "\<forall>a. dsets_of (att_dsets st4) a =
                dsets_of (att_dsets st3) a @
                  concat (map (\<lambda>b. expected_datasets (nat (num_nodes13 st3)) (fst b)
                                      (defaults_in (att_defaults st3) (fst b)) (snd b))
                            (filter (\<lambda>b. fst b = a) (value_blocks (nat na) fs4)))"
    using v by blast+
  have c1: "num_nodes13 st = nn" using fin v2 n3 by (simp add: add_dsets_and_update_sim_def)
  have c2: "num_atts13 st = na" using fin v3 a3 by (simp add: add_dsets_and_update_sim_def)
  have c3: "length (value_blocks (nat na) ?vs) = nat na" using v5 fs4 by simp
  have c4: "\<forall>a. defaults_in (att_defaults st) a = declared_defaults (nat na) ls a"
    using fin v1 dd by (simp add: add_dsets_and_update_sim_def)
  have c5: "\<forall>a. dsets_of (att_dsets st) a =
                concat (map (\<lambda>b. expected_datasets (nat nn) (fst b)
                                    (declared_defaults (nat na) ls (fst b)) (snd b))
                          (filter (\<lambda>b. fst b = a) (value_blocks (nat na) ?vs)))"
  proof
    fix a
    have "dsets_of (att_dsets st3) a = []" by (simp add: d3 dsets_of_def)
    moreover have "att_dsets st = att_dsets st4" using fin by (simp add: add_dsets_and_update_sim_def)
    ultimately show "dsets_of (att_dsets st) a =
                concat (map (\<lambda>b. expected_datasets (nat nn) (fst b)
                                    (declared_defaults (nat na) ls (fst b)) (snd b))
                          (filter (\<lambda>b. fst b = a) (value_blocks (nat na) ?vs)))"
      using v6 unfolding fs4 dd n3 by simp
  qed
  have c6: "built_data13 st = concat (map snd (att_dsets st))"
    using fin v4 b3 by (simp add: add_dsets_and_update_sim_def)
  have c7: "\<forall>N d recs k. length (resolved_values N d recs k) = N \<and>
            (\<forall>i < N. resolved_values N d recs k ! i =
               (case last_override recs k i of None \<Rightarrow> d ! k | Some v \<Rightarrow> v))"
    using resolved_values_nth by blast
  have c8: "fort13_read (Some scenario_B) (fort13_init 10) =
    Some (Inr \<lparr>geom_num_nodes13 = 10, num_nodes13 = 10, num_atts13 = 1,
           att_defaults = [(''bottom_roughness_length'', [0.025])],
           att_dsets = [(''bottom_roughness_length'',
             [\<lparr>ds_name = ''Z0b_var'', ds_timesteps =
                [(0, [0.025, 0.025, 0.025, 0.025, 0.05, 0.025, 0.025, 0.025, 0.025, 0.025])]\<rparr>])],
           datasets13 = [(''Z0b_var'',
             \<lparr>ds_name = ''Z0b_var'', ds_timesteps =
                [(0, [0.025, 0.025, 0.025, 0.025, 0.05, 0.025, 0.025, 0.025, 0.025, 0.025])]\<rparr>)],
           built_data13 =
             [\<lparr>ds_name = ''Z0b_var'', ds_timesteps =
                [(0, [0.025, 0.025, 0.025, 0.025, 0.05, 0.025, 0.025, 0.025, 0.025, 0.025])]\<rparr>],
           nodal_atts = [], warnings13 = []\<rparr>)"
    by (simp add: scenario_B_def py_defs fort13_defs eval_nat_numeral)
  show ?thesis using c1 g pos c2 c3 c4 c5 c6 c7 c8 by blast
qed

text \<open>
  The theorem at \<open>two_attribute_file\<close>: the block of \<open>mannings_n_at_sea_floor\<close>
  names node 2 twice and the second record wins; the unknown attribute \<open>wind_drag\<close>
  has two components, and its nodes 2 and 3 keep the defaults.
\<close>

theorem nodal_attribute_values_resolved_witness:
  "fort13_read (Some two_attribute_file) (fort13_init 4) = Some (Inr two_attribute_result) \<and>
   value_blocks (nat 2) (drop (3 + 4 * nat 2) two_attribute_file) =
     [(''mannings_n_at_sea_floor'', [''2 0.03'', ''2 0.04'']),
      (''wind_drag'', [''1 5.0 6.0'', ''4, 7.0, 8.0''])] \<and>
   dsets_of (att_dsets two_attribute_result) ''mannings_n_at_sea_floor'' =
     expected_datasets (nat 4) ''mannings_n_at_sea_floor'' [0.02] [''2 0.03'', ''2 0.04''] \<and>
   dsets_of (att_dsets two_attribute_result) ''wind_drag'' =
     expected_datasets (nat 4) ''wind_drag'' [1, 2] [''1 5.0 6.0'', ''4, 7.0, 8.0''] \<and>
   resolved_values 4 [0.02] (exception_records 2 1 [''2 0.03'', ''2 0.04'']) 0 ! 1 = 0.04 \<and>
   resolved_values 4 [1, 2] (exception_records 2 2 [''1 5.0 6.0'', ''4, 7.0, 8.0'']) 1 ! 3 = 8 \<and>
   resolved_values 4 [1, 2] (exception_records 2 2 [''1 5.0 6.0'', ''4, 7.0, 8.0'']) 1 ! 2 = 2"
proof -
  let ?blocks = "value_blocks (nat 2) (drop (3 + 4 * nat 2) two_attribute_file)"
  have nn: "first_int (line_at two_attribute_file 1) = Inr 4"
    and na: "first_int (line_at two_attribute_file 2) = Inr 2"
    by (simp_all add: two_attribute_file_def line_at_def py_defs)
  have ids: "\<forall>b \<in> set ?blocks.
           \<forall>r \<in> set (exception_records (length (snd b))
                        (length (declared_defaults (nat 2) two_attribute_file (fst b))) (snd b)).
             \<forall>node_id vs. r = Some (node_id, vs) \<longrightarrow> 1 \<le> node_id \<and> node_id \<le> 4"
    unfolding two_attribute_blocks
    by (simp add: two_attribute_defaults two_attribute_records_Suc)
  note t = nodal_attribute_values_resolved [OF two_attribute_read nn na ids]
  have ds: "\<forall>a. dsets_of (att_dsets two_attribute_result) a =
                concat (map (\<lambda>b. expected_datasets (nat 4) (fst b)
                                    (declared_defaults (nat 2) two_attribute_file (fst b)) (snd b))
                          (filter (\<lambda>b. fst b = a) ?blocks))"
    using t by blast
  have rv: "\<forall>N d recs k. length (resolved_values N d recs k) = N \<and>
            (\<forall>i < N. resolved_values N d recs k ! i =
               (case last_override recs k i of None \<Rightarrow> d ! k | Some v \<Rightarrow> v))"
    using t by blast
  have a: "dsets_of (att_dsets two_attribute_result) ''mannings_n_at_sea_floor'' =
     expected_datasets (nat 4) ''mannings_n_at_sea_floor'' [0.02] [''2 0.03'', ''2 0.04'']"
    using ds [rule_format, of "''mannings_n_at_sea_floor''"]
    unfolding two_attribute_blocks by (simp add: two_attribute_defaults)
  have b: "dsets_of (att_dsets two_attribute_result) ''wind_drag'' =
     expected_datasets (nat 4) ''wind_drag'' [1, 2] [''1 5.0 6.0'', ''4, 7.0, 8.0'']"
    using ds [rule_format, of "''wind_drag''"]
    unfolding two_attribute_blocks by (simp add: two_attribute_defaults)
  have c: "resolved_values 4 [0.02] (exception_records 2 1 [''2 0.03'', ''2 0.04'']) 0 ! 1 = 0.04"
  proof -
    have "(1::nat) < 4" by simp
    with rv have "resolved_values 4 [0.02] (exception_records 2 1 [''2 0.03'', ''2 0.04'']) 0 ! 1 =
        (case last_override (exception_records 2 1 [''2 0.03'', ''2 0.04'']) 0 1 of None \<Rightarrow> [0.02] ! 0 | Some v \<Rightarrow> v)"
      by blast
    then show ?thesis unfolding two_attribute_records by (simp add: last_override_def)
  qed
  have d: "resolved_values 4 [1, 2] (exception_records 2 2 [''1 5.0 6.0'', ''4, 7.0, 8.0'']) 1 ! 3 = 8"
  proof -
    have "(3::nat) < 4" by simp
    with rv have "resolved_values 4 [1, 2] (exception_records 2 2 [''1 5.0 6.0'', ''4, 7.0, 8.0'']) 1 ! 3 =
        (case last_override (exception_records 2 2 [''1 5.0 6.0'', ''4, 7.0, 8.0'']) 1 3 of None \<Rightarrow> [1, 2] ! 1 | Some v \<Rightarrow> v)"
      by blast
    then show ?thesis unfolding two_attribute_records by (simp add: last_override_def)
  qed
  have e: "resolved_values 4 [1, 2] (exception_records 2 2 [''1 5.0 6.0'', ''4, 7.0, 8.0'']) 1 ! 2 = 2"
  proof -
    have "(2::nat) < 4" by simp
    with rv have "resolved_values 4 [1, 2] (exception_records 2 2 [''1 5.0 6.0'', ''4, 7.0, 8.0'']) 1 ! 2 =
        (case last_override (exception_records 2 2 [''1 5.0 6.0'', ''4, 7.0, 8.0'']) 1 2 of None \<Rightarrow> [1, 2] ! 1 | Some v \<Rightarrow> v)"
      by blast
    then show ?thesis unfolding two_attribute_records by (simp add: last_override_def)
  qed
  show ?thesis using two_attribute_read two_attribute_blocks a b c d e by blast
qed

text \<open>
  The claim as stated fails on a file that is read without error. In
  \<open>node_zero_file\<close> (3 nodes, default 0.025) the only exception record names node 0:
  Python's index \<open>-1\<close> is the last position, so node 3, which no record lists, ends
  with 0.05 instead of its default.
\<close>

theorem node_id_zero_counterexample:
  "fort13_read (Some node_zero_file) (fort13_init 3) =
     Some (Inr \<lparr>geom_num_nodes13 = 3, num_nodes13 = 3, num_atts13 = 1,
            att_defaults = [(''bottom_roughness_length'', [0.025])],
            att_dsets = [(''bottom_roughness_length'',
              [\<lparr>ds_name = ''Z0b_var'', ds_timesteps = [(0, [0.025, 0.025, 0.05])]\<rparr>])],
            datasets13 = [(''Z0b_var'',
              \<lparr>ds_name = ''Z0b_var'', ds_timesteps = [(0, [0.025, 0.025, 0.05])]\<rparr>)],
            built_data13 = [\<lparr>ds_name = ''Z0b_var'', ds_timesteps = [(0, [0.025, 0.025, 0.05])]\<rparr>],
            nodal_atts = [], warnings13 = []\<rparr>) \<and>
   exception_records 1 1 (drop 9 node_zero_file) = [Some (0, [0.05])]"
  by (simp add: node_zero_file_def exception_records_def record_of_def py_defs fort13_defs
      eval_nat_numeral)

section \<open>Mesh geometry reader\<close>


lemma wkt_distinct: "GEOGRAPHIC_WKT \<noteq> LOCAL_METERS_WKT"
  by (simp add: GEOGRAPHIC_WKT_def LOCAL_METERS_WKT_def)

lemma read_node_spec:
  assumes "read_node st = Inr st'"
  shows "current_line st < length (lines14 st) \<and>
         (\<exists>point_id xyz. node_entry (split (lines14 st ! current_line st)) = Inr (point_id, xyz) \<and>
            st' = st\<lparr>current_line := current_line st + 1,
                     pt_map := AList.update point_id (xyz, length (pt_map st)) (pt_map st)\<rparr>)"
  using assms
  by (auto simp: read_node_def py_index_def Let_def split: if_splits sum.splits)

lemma read_nodes_spec:
  "read_nodes n st = Inr st' \<Longrightarrow>
     (\<exists>es. length es = n \<and>
        (\<forall>i < n. current_line st + i < length (lines14 st) \<and>
           node_entry (split (lines14 st ! (current_line st + i))) = Inr (es ! i)) \<and>
        st' = st\<lparr>current_line := current_line st + n, pt_map := insert_nodes es (pt_map st)\<rparr>)"
proof (induction n arbitrary: st)
  case 0
  then show ?case by simp
next
  case (Suc n)
  from Suc.prems obtain st1 where s1: "read_node st = Inr st1" and r: "read_nodes n st1 = Inr st'"
    by (auto split: sum.splits)
  from read_node_spec [OF s1] obtain point_id xyz where
    cl: "current_line st < length (lines14 st)"
    and ne: "node_entry (split (lines14 st ! current_line st)) = Inr (point_id, xyz)"
    and st1: "st1 = st\<lparr>current_line := current_line st + 1,
                     pt_map := AList.update point_id (xyz, length (pt_map st)) (pt_map st)\<rparr>"
    by blast
  from Suc.IH [OF r] obtain es where
    es: "length es = n"
      "\<forall>i < n. current_line st1 + i < length (lines14 st1) \<and>
         node_entry (split (lines14 st1 ! (current_line st1 + i))) = Inr (es ! i)"
      "st' = st1\<lparr>current_line := current_line st1 + n, pt_map := insert_nodes es (pt_map st1)\<rparr>"
    by blast
  let ?es = "(point_id, xyz) # es"
  have a: "length ?es = Suc n" using es(1) by simp
  have b: "\<forall>i < Suc n. current_line st + i < length (lines14 st) \<and>
             node_entry (split (lines14 st ! (current_line st + i))) = Inr (?es ! i)"
  proof (intro allI impI)
    fix i assume "i < Suc n"
    show "current_line st + i < length (lines14 st) \<and>
          node_entry (split (lines14 st ! (current_line st + i))) = Inr (?es ! i)"
    proof (cases i)
      case 0
      then show ?thesis using ne cl by simp
    next
      case (Suc j)
      then have "j < n" using \<open>i < Suc n\<close> by simp
      then have "current_line st1 + j < length (lines14 st1) \<and>
          node_entry (split (lines14 st1 ! (current_line st1 + j))) = Inr (es ! j)"
        using es(2) by blast
      then show ?thesis using Suc st1 by simp
    qed
  qed
  have c: "st' = st\<lparr>current_line := current_line st + Suc n, pt_map := insert_nodes ?es (pt_map st)\<rparr>"
    using es(3) st1 by simp
  show ?case using a b c by blast
qed

lemma update_fresh: "k \<notin> fst ` set m \<Longrightarrow> AList.update k v m = m @ [(k, v)]"
  by (induction m) auto

lemma insert_nodes_distinct:
  "distinct (map fst es) \<Longrightarrow> fst ` set es \<inter> fst ` set m = {} \<Longrightarrow>
     insert_nodes es m = m @ indexed (length m) es"
proof (induction es arbitrary: m)
  case Nil
  then show ?case by (simp add: indexed_def)
next
  case (Cons e es)
  obtain point_id xyz where e: "e = (point_id, xyz)" by (cases e)
  have fresh: "point_id \<notin> fst ` set m" using Cons.prems(2) e by auto
  let ?m = "m @ [(point_id, (xyz, length m))]"
  have d: "distinct (map fst es)" using Cons.prems(1) by simp
  have "point_id \<notin> fst ` set es" using Cons.prems(1) e by force
  then have disj: "fst ` set es \<inter> fst ` set ?m = {}" using Cons.prems(2) by auto
  have "insert_nodes (e # es) m = insert_nodes es ?m"
    using e update_fresh [OF fresh] by simp
  also have "\<dots> = ?m @ indexed (length ?m) es" by (rule Cons.IH [OF d disj])
  also have "\<dots> = m @ indexed (length m) (e # es)" using e by (simp add: indexed_def)
  finally show ?case .
qed

lemma indexed_length [simp]: "length (indexed n es) = length es"
  by (simp add: indexed_def)

lemma indexed_nth: "i < length es \<Longrightarrow> indexed n es ! i = (fst (es ! i), (snd (es ! i), n + i))"
  by (simp add: indexed_def nth_enumerate_eq)

lemma indexed_points: "map (\<lambda>point_data. fst (snd point_data)) (indexed n es) = map snd es"
  by (induction es arbitrary: n) (auto simp: indexed_def)

lemma indexed_keys: "map fst (indexed n es) = map fst es"
  by (induction es arbitrary: n) (auto simp: indexed_def)

lemma indexed_map_of:
  assumes "distinct (map fst es)" and "i < length es"
  shows "map_of (indexed n es) (fst (es ! i)) = Some (snd (es ! i), n + i)"
proof -
  have "distinct (map fst (indexed n es))" using assms(1) by (simp add: indexed_keys)
  moreover have "(fst (es ! i), (snd (es ! i), n + i)) \<in> set (indexed n es)"
    using indexed_nth [OF assms(2), of n] assms(2) by (metis indexed_length nth_mem)
  ultimately show ?thesis by (rule map_of_is_SomeI)
qed

lemma indexed_map_of_bound:
  assumes "map_of (indexed n es) k = Some (xyz, j)"
  shows "j < n + length es"
proof -
  from assms have "(k, (xyz, j)) \<in> set (indexed n es)" by (rule map_of_SomeD)
  then obtain i where "i < length es" "indexed n es ! i = (k, (xyz, j))"
    by (metis in_set_conv_nth indexed_length)
  then show ?thesis using indexed_nth [of i es n] by simp
qed

lemma cell_ref_spec:
  assumes "cell_ref st toks c = Inr i"
  shows "\<exists>point_id xyz j. ebind (py_index toks c) py_int = Inr point_id \<and>
           map_of (pt_map st) point_id = Some (xyz, j) \<and> i = int j"
proof -
  from assms obtain t where t: "py_index toks c = Inr t"
    and e1: "ebind (py_int t) (\<lambda>point_id.
       ebind (py_lookup (pt_map st) point_id) (\<lambda>entry. Inr (int (snd entry)))) = Inr i"
    unfolding cell_ref_def by (rule ebind_InrE)
  from e1 obtain point_id where pid: "py_int t = Inr point_id"
    and e2: "ebind (py_lookup (pt_map st) point_id) (\<lambda>entry. Inr (int (snd entry))) = Inr i"
    by (rule ebind_InrE)
  from e2 obtain entry where l: "py_lookup (pt_map st) point_id = Inr entry" and i: "i = int (snd entry)"
    by (rule ebind_InrE) simp
  from l have "map_of (pt_map st) point_id = Some entry"
    by (simp add: py_lookup_def split: option.splits)
  then have "map_of (pt_map st) point_id = Some (fst entry, snd entry)" by simp
  moreover have "ebind (py_index toks c) py_int = Inr point_id" using t pid by simp
  ultimately show ?thesis using i by blast
qed

lemma cell_ref_cong: "pt_map st1 = pt_map st \<Longrightarrow> cell_ref st1 toks c = cell_ref st toks c"
  by (simp add: cell_ref_def)

lemma cell_ref_current_line [simp]:
  "cell_ref (st\<lparr>current_line := x\<rparr>) toks c = cell_ref st toks c"
  by (simp add: cell_ref_def)

lemma get_cell_stream_vals_spec:
  assumes "get_cell_stream_vals st = Inr (vals, st')"
  shows "current_line st < length (lines14 st) \<and> st' = st\<lparr>current_line := current_line st + 1\<rparr> \<and>
         (\<exists>i1 i2 i3. vals = [TRIANGLE, 3, i1, i2, i3] \<and>
            cell_ref st (split (lines14 st ! current_line st)) 2 = Inr i1 \<and>
            cell_ref st (split (lines14 st ! current_line st)) 3 = Inr i2 \<and>
            cell_ref st (split (lines14 st ! current_line st)) 4 = Inr i3)"
proof -
  let ?toks = "split (lines14 st ! current_line st)"
  let ?st1 = "st\<lparr>current_line := current_line st + 1\<rparr>"
  have cl: "current_line st < length (lines14 st)"
    using assms by (auto simp: get_cell_stream_vals_def py_index_def split: if_splits)
  then have line: "py_index (lines14 st) (current_line st) = Inr (lines14 st ! current_line st)"
    by (simp add: py_index_def)
  have cong: "cell_ref ?st1 ?toks c = cell_ref st ?toks c" for c
    by (rule cell_ref_cong) simp
  from assms have e: "ebind (cell_ref st ?toks 2) (\<lambda>i1.
                   ebind (cell_ref st ?toks 3) (\<lambda>i2.
                   ebind (cell_ref st ?toks 4) (\<lambda>i3. Inr [TRIANGLE, 3, i1, i2, i3]))) = Inr vals"
    and st': "st' = ?st1"
    unfolding get_cell_stream_vals_def line by (auto simp: Let_def split: sum.splits)
  from e obtain i1 where i1: "cell_ref st ?toks 2 = Inr i1"
    and e1: "ebind (cell_ref st ?toks 3) (\<lambda>i2.
                   ebind (cell_ref st ?toks 4) (\<lambda>i3. Inr [TRIANGLE, 3, i1, i2, i3])) = Inr vals"
    by (rule ebind_InrE)
  from e1 obtain i2 where i2: "cell_ref st ?toks 3 = Inr i2"
    and e2: "ebind (cell_ref st ?toks 4) (\<lambda>i3. Inr [TRIANGLE, 3, i1, i2, i3]) = Inr vals"
    by (rule ebind_InrE)
  from e2 obtain i3 where i3: "cell_ref st ?toks 4 = Inr i3" and v: "vals = [TRIANGLE, 3, i1, i2, i3]"
    by (rule ebind_InrE) simp
  show ?thesis using cl st' i1 i2 i3 v by blast
qed

lemma read_cells_spec:
  "read_cells n st = Inr (cs, st') \<Longrightarrow>
     st' = st\<lparr>current_line := current_line st + n\<rparr> \<and>
     (\<exists>cells. length cells = n \<and> cs = cell_stream_of cells \<and>
        (\<forall>j < n. current_line st + j < length (lines14 st) \<and>
           (\<exists>i1 i2 i3. cells ! j = [i1, i2, i3] \<and>
              cell_ref st (split (lines14 st ! (current_line st + j))) 2 = Inr i1 \<and>
              cell_ref st (split (lines14 st ! (current_line st + j))) 3 = Inr i2 \<and>
              cell_ref st (split (lines14 st ! (current_line st + j))) 4 = Inr i3)))"
proof (induction n arbitrary: st cs)
  case 0
  then show ?case by (simp add: cell_stream_of_def)
next
  case (Suc n)
  from Suc.prems obtain vals st1 rest where
    g: "get_cell_stream_vals st = Inr (vals, st1)"
    and r: "read_cells n st1 = Inr (rest, st')" and cs: "cs = vals @ rest"
    by (auto split: sum.splits)
  from get_cell_stream_vals_spec [OF g] obtain i1 i2 i3 where
    cl: "current_line st < length (lines14 st)"
    and st1: "st1 = st\<lparr>current_line := current_line st + 1\<rparr>"
    and v: "vals = [TRIANGLE, 3, i1, i2, i3]"
    and refs: "cell_ref st (split (lines14 st ! current_line st)) 2 = Inr i1"
      "cell_ref st (split (lines14 st ! current_line st)) 3 = Inr i2"
      "cell_ref st (split (lines14 st ! current_line st)) 4 = Inr i3"
    by blast
  from Suc.IH [OF r] obtain cells where
    st': "st' = st1\<lparr>current_line := current_line st1 + n\<rparr>"
    and cells: "length cells = n" "rest = cell_stream_of cells"
      "\<forall>j < n. current_line st1 + j < length (lines14 st1) \<and>
           (\<exists>i1 i2 i3. cells ! j = [i1, i2, i3] \<and>
              cell_ref st1 (split (lines14 st1 ! (current_line st1 + j))) 2 = Inr i1 \<and>
              cell_ref st1 (split (lines14 st1 ! (current_line st1 + j))) 3 = Inr i2 \<and>
              cell_ref st1 (split (lines14 st1 ! (current_line st1 + j))) 4 = Inr i3)"
    by blast
  have cong: "cell_ref st1 toks c = cell_ref st toks c" for toks c
    by (rule cell_ref_cong) (simp add: st1)
  let ?cells = "[i1, i2, i3] # cells"
  have a: "st' = st\<lparr>current_line := current_line st + Suc n\<rparr>" using st' st1 by simp
  have b: "length ?cells = Suc n" using cells(1) by simp
  have c: "cs = cell_stream_of ?cells" using cs v cells(2) by (simp add: cell_stream_of_def)
  have d: "\<forall>j < Suc n. current_line st + j < length (lines14 st) \<and>
           (\<exists>i1 i2 i3. ?cells ! j = [i1, i2, i3] \<and>
              cell_ref st (split (lines14 st ! (current_line st + j))) 2 = Inr i1 \<and>
              cell_ref st (split (lines14 st ! (current_line st + j))) 3 = Inr i2 \<and>
              cell_ref st (split (lines14 st ! (current_line st + j))) 4 = Inr i3)"
  proof (intro allI impI)
    fix j assume j: "j < Suc n"
    show "current_line st + j < length (lines14 st) \<and>
           (\<exists>i1 i2 i3. ?cells ! j = [i1, i2, i3] \<and>
              cell_ref st (split (lines14 st ! (current_line st + j))) 2 = Inr i1 \<and>
              cell_ref st (split (lines14 st ! (current_line st + j))) 3 = Inr i2 \<and>
              cell_ref st (split (lines14 st ! (current_line st + j))) 4 = Inr i3)"
    proof (cases j)
      case 0
      then show ?thesis using cl refs by simp
    next
      case (Suc k)
      then have "k < n" using j by simp
      then have "current_line st1 + k < length (lines14 st1) \<and>
           (\<exists>i1 i2 i3. cells ! k = [i1, i2, i3] \<and>
              cell_ref st1 (split (lines14 st1 ! (current_line st1 + k))) 2 = Inr i1 \<and>
              cell_ref st1 (split (lines14 st1 ! (current_line st1 + k))) 3 = Inr i2 \<and>
              cell_ref st1 (split (lines14 st1 ! (current_line st1 + k))) 4 = Inr i3)"
        using cells(3) by blast
      then show ?thesis unfolding cong using Suc st1 by simp
    qed
  qed
  show ?case using a b c d by blast
qed

lemma xm_cells_stream:
  "\<forall>c \<in> set cells. length c = 3 \<Longrightarrow> xm_cells (cell_stream_of cells) = cells"
  by (induction cells) (auto simp: cell_stream_of_def)

lemma read_mesh_anatomy:
  assumes "read_mesh ext st = Inr st'"
  shows "\<exists>nc nn st3 cs st4.
           current_line st < length (lines14 st) \<and>
           ebind (py_index (split (lines14 st ! current_line st)) 0) py_int = Inr nc \<and>
           ebind (py_index (split (lines14 st ! current_line st)) 1) py_int = Inr nn \<and>
           read_nodes (nat nn)
             (st\<lparr>current_line := current_line st + 1, num_cells14 := nc, num_nodes14 := nn\<rparr>) = Inr st3 \<and>
           read_cells (nat (num_cells14 st3)) st3 = Inr (cs, st4) \<and>
           st' = st4\<lparr>co_grid := Some \<lparr>ug_points = map (\<lambda>point_data. fst (snd point_data)) (pt_map st4),
                                         ug_cellstream = cs\<rparr>,
                      assume_geo_coords :=
                        (in_geographic_bounds (ext (map (\<lambda>point_data. fst (snd point_data)) (pt_map st4)))
                         \<or> assume_geo_coords st4)\<rparr>"
proof -
  have cl: "current_line st < length (lines14 st)"
    using assms by (auto simp: read_mesh_def py_index_def split: if_splits)
  then have line: "py_index (lines14 st) (current_line st) = Inr (lines14 st ! current_line st)"
    by (simp add: py_index_def)
  let ?toks = "split (lines14 st ! current_line st)"
  obtain nc where nc: "ebind (py_index ?toks 0) py_int = Inr nc"
    using assms unfolding read_mesh_def line by (cases "ebind (py_index ?toks 0) py_int") (simp_all add: Let_def)
  obtain nn where nn: "ebind (py_index ?toks 1) py_int = Inr nn"
    using assms unfolding read_mesh_def line
    by (cases "ebind (py_index ?toks 1) py_int") (simp_all add: Let_def nc)
  note nn' = nn [simplified]
  let ?st2 = "st\<lparr>current_line := current_line st + 1, num_cells14 := nc, num_nodes14 := nn\<rparr>"
  obtain st3 where st3: "read_nodes (nat nn) ?st2 = Inr st3"
    using assms unfolding read_mesh_def line
    by (cases "read_nodes (nat nn) ?st2") (simp_all add: Let_def nc nn')
  obtain cs st4 where c4: "read_cells (nat (num_cells14 st3)) st3 = Inr (cs, st4)"
    using assms unfolding read_mesh_def line
    by (cases "read_cells (nat (num_cells14 st3)) st3") (auto simp: Let_def nc nn' st3 [simplified])
  have "st' = st4\<lparr>co_grid := Some \<lparr>ug_points = map (\<lambda>point_data. fst (snd point_data)) (pt_map st4),
                                         ug_cellstream = cs\<rparr>,
                      assume_geo_coords :=
                        (in_geographic_bounds (ext (map (\<lambda>point_data. fst (snd point_data)) (pt_map st4)))
                         \<or> assume_geo_coords st4)\<rparr>"
    using assms unfolding read_mesh_def line
    by (auto simp: Let_def nc nn' st3 [simplified] c4 in_geographic_bounds_def split: prod.splits if_splits)
  then show ?thesis using cl nc nn st3 c4 by blast
qed

lemmas fort14_defs = fort14_read_def parse_lines_def read_mesh_def read_node_def node_entry_def
  get_cell_stream_vals_def cell_ref_def readlines_def fort14_init_def assign_wkt_def

lemma read_node_error: "read_node st = Inl (e, st') \<Longrightarrow> co_grid st' = co_grid st"
  by (auto simp: read_node_def Let_def split: sum.splits)

lemma read_nodes_error: "read_nodes n st = Inl (e, st') \<Longrightarrow> co_grid st' = co_grid st"
proof (induction n arbitrary: st)
  case 0
  then show ?case by simp
next
  case (Suc n)
  show ?case
  proof (cases "read_node st")
    case (Inl x)
    then show ?thesis using Suc.prems read_node_error [of st e st'] by simp
  next
    case (Inr st1)
    then have "read_nodes n st1 = Inl (e, st')" using Suc.prems by simp
    then have "co_grid st' = co_grid st1" by (rule Suc.IH)
    moreover have "co_grid st1 = co_grid st" using read_node_spec [OF Inr] by auto
    ultimately show ?thesis by simp
  qed
qed

lemma get_cell_stream_vals_error:
  "get_cell_stream_vals st = Inl (e, st') \<Longrightarrow> co_grid st' = co_grid st"
  by (auto simp: get_cell_stream_vals_def Let_def split: sum.splits)

lemma read_cells_error: "read_cells n st = Inl (e, st') \<Longrightarrow> co_grid st' = co_grid st"
proof (induction n arbitrary: st)
  case 0
  then show ?case by simp
next
  case (Suc n)
  show ?case
  proof (cases "get_cell_stream_vals st")
    case (Inl x)
    then show ?thesis using Suc.prems get_cell_stream_vals_error [of st e st'] by simp
  next
    case (Inr r)
    obtain vals st1 where r: "r = (vals, st1)" by (cases r)
    have st1: "co_grid st1 = co_grid st" using get_cell_stream_vals_spec [of st vals st1] Inr r by auto
    have "read_cells n st1 = Inl (e, st')"
      using Suc.prems Inr r by (auto split: sum.splits)
    then have "co_grid st' = co_grid st1" by (rule Suc.IH)
    then show ?thesis using st1 by simp
  qed
qed

lemma read_mesh_error:
  assumes "read_mesh ext st = Inl (e, st')"
  shows "co_grid st' = co_grid st"
proof (cases "py_index (lines14 st) (current_line st)")
  case (Inl x)
  then show ?thesis using assms by (simp add: read_mesh_def)
next
  case line: (Inr l)
  let ?toks = "split l"
  show ?thesis
  proof (cases "ebind (py_index ?toks 0) py_int")
    case (Inl x)
    then show ?thesis using assms line by (auto simp: read_mesh_def Let_def)
  next
    case nc: (Inr nc)
    show ?thesis
    proof (cases "ebind (py_index ?toks (Suc 0)) py_int")
      case (Inl x)
      then show ?thesis using assms line nc by (auto simp: read_mesh_def Let_def)
    next
      case nn: (Inr nn)
      let ?st2 = "st\<lparr>current_line := Suc (current_line st), num_cells14 := nc, num_nodes14 := nn\<rparr>"
      show ?thesis
      proof (cases "read_nodes (nat nn) ?st2")
        case (Inl x)
        then have "read_nodes (nat nn) ?st2 = Inl (e, st')"
          using assms line nc nn by (simp add: read_mesh_def Let_def)
        then show ?thesis using read_nodes_error by fastforce
      next
        case st3: (Inr st3)
        have g3: "co_grid st3 = co_grid st" using read_nodes_spec [OF st3] by auto
        show ?thesis
        proof (cases "read_cells (nat (num_cells14 st3)) st3")
          case (Inl x)
          then have "read_cells (nat (num_cells14 st3)) st3 = Inl (e, st')"
            using assms line nc nn st3 by (simp add: read_mesh_def Let_def)
          then show ?thesis using read_cells_error g3 by fastforce
        next
          case (Inr r)
          then have False
            using assms line nc nn st3
            by (auto simp: read_mesh_def Let_def split: prod.splits if_splits)
          then show ?thesis ..
        qed
      qed
    qed
  qed
qed

lemma fort14_read_error:
  assumes "fort14_read ext fname = Inl (e, st')"
  shows "co_grid st' = None"
proof (cases fname)
  case None
  then show ?thesis using assms by (auto simp: fort14_read_def fort14_init_def)
next
  case (Some f)
  show ?thesis
  proof (cases "f = []")
    case True
    then show ?thesis using assms Some by (auto simp: fort14_read_def fort14_init_def)
  next
    case False
    then have p: "parse_lines ext f fort14_init = Inl (e, st')"
      using assms Some by (auto simp: fort14_read_def split: sum.splits)
    show ?thesis
    proof (cases "py_index (readlines f) 0")
      case (Inl x)
      then show ?thesis using p by (auto simp: parse_lines_def fort14_init_def Let_def)
    next
      case (Inr l)
      then have "read_mesh ext (fort14_init\<lparr>lines14 := readlines f, mesh_name := strip l,
                   current_line := Suc 0\<rparr>) = Inl (e, st')"
        using p by (simp add: parse_lines_def Let_def fort14_init_def)
      from read_mesh_error [OF this] show ?thesis by (simp add: fort14_init_def)
    qed
  qed
qed

lemma readlines_nth: "i < length f \<Longrightarrow> readlines f ! i = f ! i @ [CHR 0x0A]"
  by (simp add: readlines_def)

lemma readlines_length [simp]: "length (readlines f) = length f"
  by (simp add: readlines_def)

lemma fort14_read_anatomy:
  assumes "fort14_read ext (Some f) = Inr st"
  shows "\<exists>nc nn es cells.
     1 < length f \<and> line_int (f ! 1) 0 = Inr nc \<and> line_int (f ! 1) 1 = Inr nn \<and>
     length es = nat nn \<and>
     (\<forall>i < nat nn. 2 + i < length f \<and> node_entry (split (f ! (2 + i) @ [CHR 0x0A])) = Inr (es ! i)) \<and>
     length cells = nat nc \<and>
     (\<forall>j < nat nc. 2 + nat nn + j < length f \<and>
        (\<exists>i1 i2 i3. cells ! j = [i1, i2, i3] \<and>
           cell_ref st (split (f ! (2 + nat nn + j) @ [CHR 0x0A])) 2 = Inr i1 \<and>
           cell_ref st (split (f ! (2 + nat nn + j) @ [CHR 0x0A])) 3 = Inr i2 \<and>
           cell_ref st (split (f ! (2 + nat nn + j) @ [CHR 0x0A])) 4 = Inr i3)) \<and>
     num_cells14 st = nc \<and> num_nodes14 st = nn \<and> pt_map st = insert_nodes es [] \<and>
     co_grid st = Some \<lparr>ug_points = map (\<lambda>point_data. fst (snd point_data)) (insert_nodes es []),
                        ug_cellstream = cell_stream_of cells\<rparr> \<and>
     wkt14 st =
       (if in_geographic_bounds (ext (map (\<lambda>point_data. fst (snd point_data)) (insert_nodes es [])))
        then GEOGRAPHIC_WKT else LOCAL_METERS_WKT)"
proof -
  from assms have ne: "f \<noteq> []" by (auto simp: fort14_read_def split: if_splits)
  from assms ne obtain st0 where p: "parse_lines ext f fort14_init = Inr st0" and st: "st = assign_wkt st0"
    by (auto simp: fort14_read_def split: sum.splits)
  have l0: "py_index (readlines f) 0 = Inr (f ! 0 @ [CHR 0x0A])"
    using ne by (simp add: py_index_def readlines_nth)
  let ?stA = "fort14_init\<lparr>lines14 := readlines f, mesh_name := strip (f ! 0 @ [CHR 0x0A]),
                current_line := Suc 0\<rparr>"
  have rm: "read_mesh ext ?stA = Inr st0"
    using p l0 by (simp add: parse_lines_def Let_def fort14_init_def)
  from read_mesh_anatomy [OF rm] obtain nc nn st3 cs st4 where
    cl: "current_line ?stA < length (lines14 ?stA)"
    and nc: "ebind (py_index (split (lines14 ?stA ! current_line ?stA)) 0) py_int = Inr nc"
    and nn: "ebind (py_index (split (lines14 ?stA ! current_line ?stA)) 1) py_int = Inr nn"
    and rn: "read_nodes (nat nn)
             (?stA\<lparr>current_line := current_line ?stA + 1, num_cells14 := nc, num_nodes14 := nn\<rparr>) = Inr st3"
    and rc: "read_cells (nat (num_cells14 st3)) st3 = Inr (cs, st4)"
    and st0: "st0 = st4\<lparr>co_grid := Some \<lparr>ug_points = map (\<lambda>point_data. fst (snd point_data)) (pt_map st4),
                                         ug_cellstream = cs\<rparr>,
                      assume_geo_coords :=
                        (in_geographic_bounds (ext (map (\<lambda>point_data. fst (snd point_data)) (pt_map st4)))
                         \<or> assume_geo_coords st4)\<rparr>"
    by blast
  have len1: "1 < length f" using cl by simp
  have hdr: "lines14 ?stA ! current_line ?stA = f ! 1 @ [CHR 0x0A]"
    using len1 by (simp add: readlines_nth)
  have h0: "line_int (f ! 1) 0 = Inr nc" using nc unfolding hdr by (simp add: line_int_def)
  have h1: "line_int (f ! 1) 1 = Inr nn" using nn unfolding hdr by (simp add: line_int_def)
  let ?st2 = "?stA\<lparr>current_line := current_line ?stA + 1, num_cells14 := nc, num_nodes14 := nn\<rparr>"
  from read_nodes_spec [OF rn] obtain es where
    es: "length es = nat nn"
    and esn: "\<forall>i < nat nn. current_line ?st2 + i < length (lines14 ?st2) \<and>
           node_entry (split (lines14 ?st2 ! (current_line ?st2 + i))) = Inr (es ! i)"
    and st3: "st3 = ?st2\<lparr>current_line := current_line ?st2 + nat nn, pt_map := insert_nodes es (pt_map ?st2)\<rparr>"
    by blast
  have nodes: "\<forall>i < nat nn. 2 + i < length f \<and> node_entry (split (f ! (2 + i) @ [CHR 0x0A])) = Inr (es ! i)"
  proof (intro allI impI)
    fix i assume "i < nat nn"
    then have a: "current_line ?st2 + i < length (lines14 ?st2)"
      and b: "node_entry (split (lines14 ?st2 ! (current_line ?st2 + i))) = Inr (es ! i)"
      using esn by blast+
    have c: "2 + i < length f" using a by simp
    then have "lines14 ?st2 ! (current_line ?st2 + i) = f ! (2 + i) @ [CHR 0x0A]"
      by (simp add: readlines_nth)
    then show "2 + i < length f \<and> node_entry (split (f ! (2 + i) @ [CHR 0x0A])) = Inr (es ! i)"
      using b c by simp
  qed
  have nc3: "num_cells14 st3 = nc" and pm3: "pt_map st3 = insert_nodes es []"
    and cl3: "current_line st3 = 2 + nat nn" and ln3: "lines14 st3 = readlines f"
    and ag3: "assume_geo_coords st3 = False" and nn3: "num_nodes14 st3 = nn"
    unfolding st3 by (simp_all add: fort14_init_def)
  from read_cells_spec [OF rc] obtain cells where
    st4: "st4 = st3\<lparr>current_line := current_line st3 + nat (num_cells14 st3)\<rparr>"
    and cells: "length cells = nat (num_cells14 st3)" "cs = cell_stream_of cells"
    and celln: "\<forall>j < nat (num_cells14 st3). current_line st3 + j < length (lines14 st3) \<and>
           (\<exists>i1 i2 i3. cells ! j = [i1, i2, i3] \<and>
              cell_ref st3 (split (lines14 st3 ! (current_line st3 + j))) 2 = Inr i1 \<and>
              cell_ref st3 (split (lines14 st3 ! (current_line st3 + j))) 3 = Inr i2 \<and>
              cell_ref st3 (split (lines14 st3 ! (current_line st3 + j))) 4 = Inr i3)"
    by blast
  have pm: "pt_map st = insert_nodes es []"
    unfolding st st0 st4 using pm3 by (simp add: assign_wkt_def)
  have cong: "cell_ref st3 toks c = cell_ref st toks c" for toks c
    by (rule cell_ref_cong) (simp add: pm pm3)
  have cellsf: "\<forall>j < nat nc. 2 + nat nn + j < length f \<and>
        (\<exists>i1 i2 i3. cells ! j = [i1, i2, i3] \<and>
           cell_ref st (split (f ! (2 + nat nn + j) @ [CHR 0x0A])) 2 = Inr i1 \<and>
           cell_ref st (split (f ! (2 + nat nn + j) @ [CHR 0x0A])) 3 = Inr i2 \<and>
           cell_ref st (split (f ! (2 + nat nn + j) @ [CHR 0x0A])) 4 = Inr i3)"
  proof (intro allI impI)
    fix j assume "j < nat nc"
    then have j: "j < nat (num_cells14 st3)" using nc3 by simp
    from celln j have a: "current_line st3 + j < length (lines14 st3)" by blast
    then have c: "2 + nat nn + j < length f" using cl3 ln3 by simp
    then have l: "lines14 st3 ! (current_line st3 + j) = f ! (2 + nat nn + j) @ [CHR 0x0A]"
      using cl3 ln3 by (simp add: readlines_nth)
    from celln j obtain i1 i2 i3 where "cells ! j = [i1, i2, i3]"
      "cell_ref st3 (split (lines14 st3 ! (current_line st3 + j))) 2 = Inr i1"
      "cell_ref st3 (split (lines14 st3 ! (current_line st3 + j))) 3 = Inr i2"
      "cell_ref st3 (split (lines14 st3 ! (current_line st3 + j))) 4 = Inr i3"
      by blast
    then show "2 + nat nn + j < length f \<and>
        (\<exists>i1 i2 i3. cells ! j = [i1, i2, i3] \<and>
           cell_ref st (split (f ! (2 + nat nn + j) @ [CHR 0x0A])) 2 = Inr i1 \<and>
           cell_ref st (split (f ! (2 + nat nn + j) @ [CHR 0x0A])) 3 = Inr i2 \<and>
           cell_ref st (split (f ! (2 + nat nn + j) @ [CHR 0x0A])) 4 = Inr i3)"
      unfolding l cong using c by blast
  qed
  have f1: "num_cells14 st = nc" "num_nodes14 st = nn"
    unfolding st st0 st4 using nc3 nn3 by (simp_all add: assign_wkt_def)
  have f2: "co_grid st = Some \<lparr>ug_points = map (\<lambda>point_data. fst (snd point_data)) (insert_nodes es []),
                        ug_cellstream = cell_stream_of cells\<rparr>"
    unfolding st st0 st4 using pm3 cells(2) by (simp add: assign_wkt_def)
  have f3: "wkt14 st =
       (if in_geographic_bounds (ext (map (\<lambda>point_data. fst (snd point_data)) (insert_nodes es [])))
        then GEOGRAPHIC_WKT else LOCAL_METERS_WKT)"
    unfolding st st0 st4 using pm3 ag3 by (simp add: assign_wkt_def)
  have lc: "length cells = nat nc" using cells(1) nc3 by simp
  show ?thesis using len1 h0 h1 es nodes lc cellsf f1 pm f2 f3 by blast
qed

lemma node_entry_spec:
  assumes "node_entry toks = Inr (point_id, xyz)"
  shows "ebind (py_index toks 0) py_int = Inr point_id \<and>
         (\<exists>d. ebind (py_index toks 3) py_float = Inr d \<and> snd (snd xyz) = - d)"
proof -
  from assms obtain t1 x t2 y t3 z t0 pid where
    "py_index toks 3 = Inr t3" "py_float t3 = Inr z" "py_index toks 0 = Inr t0" "py_int t0 = Inr pid"
    "(point_id, xyz) = (pid, (x, y, z * - 1))"
    unfolding node_entry_def by (auto elim!: ebind_InrE)
  then show ?thesis by auto
qed

lemma update_keys: "fst ` set (AList.update k v m) = insert k (fst ` set m)"
  by (induction m) auto

lemma update_length:
  "length (AList.update k v m) = (if k \<in> fst ` set m then length m else Suc (length m))"
  by (induction m) auto

lemma insert_nodes_keys: "fst ` set (insert_nodes es m) = fst ` set m \<union> fst ` set es"
proof (induction es arbitrary: m)
  case Nil
  then show ?case by simp
next
  case (Cons e es)
  obtain point_id xyz where e: "e = (point_id, xyz)" by (cases e)
  have "fst ` set (insert_nodes (e # es) m) =
          fst ` set (AList.update point_id (xyz, length m) m) \<union> fst ` set es"
    unfolding e insert_nodes.simps by (rule Cons.IH)
  also have "\<dots> = insert point_id (fst ` set m) \<union> fst ` set es"
    by (simp only: update_keys)
  also have "\<dots> = fst ` set m \<union> fst ` set (e # es)" unfolding e by auto
  finally show ?case .
qed

lemma file_point_ids_entries:
  assumes "length es = n"
    and "\<forall>i < n. 2 + i < length f \<and> node_entry (split (f ! (2 + i) @ [CHR 0x0A])) = Inr (es ! i)"
  shows "file_point_ids n f = map (\<lambda>e. Inr (fst e)) es"
proof (rule nth_equalityI)
  have "n \<le> length (drop 2 f)"
  proof (cases n)
    case 0 then show ?thesis by simp
  next
    case (Suc m)
    then have "2 + m < length f" using assms(2) by simp
    then show ?thesis using Suc by simp
  qed
  then show len: "length (file_point_ids n f) = length (map (\<lambda>e. Inr (fst e)) es)"
    using assms(1) by (simp add: file_point_ids_def)
  fix i assume "i < length (file_point_ids n f)"
  then have i: "i < n" using len assms(1) by simp
  then have a: "2 + i < length f" and b: "node_entry (split (f ! (2 + i) @ [CHR 0x0A])) = Inr (es ! i)"
    using assms(2) by blast+
  have "node_entry (split (f ! (2 + i) @ [CHR 0x0A])) = Inr (fst (es ! i), snd (es ! i))"
    using b by simp
  from node_entry_spec [OF this] have "line_int (f ! (2 + i)) 0 = Inr (fst (es ! i))"
    by (simp add: line_int_def)
  moreover have "file_point_ids n f ! i = line_int (f ! (2 + i)) 0"
    using i a \<open>n \<le> length (drop 2 f)\<close> by (simp add: file_point_ids_def)
  ultimately show "file_point_ids n f ! i = map (\<lambda>e. Inr (fst e)) es ! i"
    using i assms(1) by simp
qed

lemma distinct_ids_entries:
  assumes "distinct (map (\<lambda>e. Inr (fst e) :: error + int) es)"
  shows "distinct (map fst es)"
  using assms by (auto simp: distinct_map inj_on_def)

lemma bounding_box_bounds:
  "(x, y, z) \<in> set ps \<Longrightarrow> bounding_box ps = ((x0, y0, z0), (x1, y1, z1)) \<Longrightarrow>
     x0 \<le> x \<and> x \<le> x1 \<and> y0 \<le> y \<and> y \<le> y1"
proof (induction ps arbitrary: x0 y0 z0 x1 y1 z1 rule: bounding_box.induct)
  case 1
  then show ?case by simp
next
  case (2 p)
  then show ?case by auto
next
  case (3 a b c q qs)
  obtain a0 b0 c0 a1 b1 c1 where bb: "bounding_box (q # qs) = ((a0, b0, c0), (a1, b1, c1))"
    by (metis prod_cases3 surj_pair)
  have eq: "x0 = min a a0" "y0 = min b b0" "x1 = max a a1" "y1 = max b b1"
    using "3.prems"(2) bb by simp_all
  show ?case
  proof (cases "(x, y, z) = (a, b, c)")
    case True
    then show ?thesis using eq by auto
  next
    case False
    then have "(x, y, z) \<in> set (q # qs)" using "3.prems"(1) by auto
    from "3.IH" [OF this bb] show ?thesis using eq by auto
  qed
qed

lemma bounding_box_attained:
  "ps \<noteq> [] \<Longrightarrow> bounding_box ps = ((x0, y0, z0), (x1, y1, z1)) \<Longrightarrow>
     (\<exists>p \<in> set ps. fst p = x0) \<and> (\<exists>p \<in> set ps. fst p = x1) \<and>
     (\<exists>p \<in> set ps. fst (snd p) = y0) \<and> (\<exists>p \<in> set ps. fst (snd p) = y1)"
proof (induction ps arbitrary: x0 y0 z0 x1 y1 z1 rule: bounding_box.induct)
  case 1
  then show ?case by simp
next
  case (2 p)
  then show ?case by auto
next
  case (3 a b c q qs)
  obtain a0 b0 c0 a1 b1 c1 where bb: "bounding_box (q # qs) = ((a0, b0, c0), (a1, b1, c1))"
    by (metis prod_cases3 surj_pair)
  have eq: "x0 = min a a0" "y0 = min b b0" "x1 = max a a1" "y1 = max b b1"
    using "3.prems"(2) bb by simp_all
  have ne: "q # qs \<noteq> []" by simp
  note ih = "3.IH" [OF ne bb]
  have "\<exists>p \<in> set ((a, b, c) # q # qs). fst p = x0"
    using ih eq(1) by (cases "a \<le> a0") (auto simp: min_def)
  moreover have "\<exists>p \<in> set ((a, b, c) # q # qs). fst p = x1"
    using ih eq(3) by (cases "a \<le> a1") (auto simp: max_def)
  moreover have "\<exists>p \<in> set ((a, b, c) # q # qs). fst (snd p) = y0"
    using ih eq(2) by (cases "b \<le> b0") (auto simp: min_def)
  moreover have "\<exists>p \<in> set ((a, b, c) # q # qs). fst (snd p) = y1"
    using ih eq(4) by (cases "b \<le> b1") (auto simp: max_def)
  ultimately show ?case by blast
qed

lemma bounding_box_outside:
  assumes "p \<in> set ps" and "fst p = 200 \<or> fst (snd p) = 200"
  shows "\<not> in_geographic_bounds (bounding_box ps)"
proof -
  obtain x y z where p: "p = (x, y, z)" by (cases p)
  obtain x0 y0 z0 x1 y1 z1 where bb: "bounding_box ps = ((x0, y0, z0), (x1, y1, z1))"
    by (metis prod_cases3 surj_pair)
  have "x \<le> x1 \<and> y \<le> y1" using bounding_box_bounds [of x y z ps, OF _ bb] assms(1) p by simp
  moreover have "x = 200 \<or> y = 200" using assms(2) p by simp
  ultimately have "180 < x1 \<or> 90 < y1" by auto
  then show ?thesis unfolding bb in_geographic_bounds_def by auto
qed

lemma bounding_box_inside:
  assumes "ps \<noteq> []"
    and "\<forall>p \<in> set ps. - 180 \<le> fst p \<and> fst p \<le> 180 \<and> - 90 \<le> fst (snd p) \<and> fst (snd p) \<le> 90"
  shows "in_geographic_bounds (bounding_box ps)"
proof -
  obtain x0 y0 z0 x1 y1 z1 where bb: "bounding_box ps = ((x0, y0, z0), (x1, y1, z1))"
    by (metis prod_cases3 surj_pair)
  from bounding_box_attained [OF assms(1) bb] assms(2)
  have "- 180 \<le> x0" "x1 \<le> 180" "- 90 \<le> y0" "y1 \<le> 90" by metis+
  then show ?thesis unfolding bb in_geographic_bounds_def by simp
qed

lemma cell_indices_in_range:
  assumes "cell_ref st toks c = Inr i" and "pt_map st = indexed 0 es"
  shows "0 \<le> i \<and> i < int (length es)"
proof -
  from cell_ref_spec [OF assms(1)] obtain point_id xyz j where
    "map_of (pt_map st) point_id = Some (xyz, j)" and i: "i = int j" by blast
  then have "map_of (indexed 0 es) point_id = Some (xyz, j)" using assms(2) by simp
  from indexed_map_of_bound [OF this] show ?thesis using i by simp
qed

text \<open>
  C5. A valid mesh file is one whose header counts are not negative, whose node lines
  carry pairwise distinct point ids, and which is read without error. For such a file
  the grid has as many points as the header's node count and as many cells as the
  header's cell count; every cell has exactly three point indices, each at least 0 and
  below the point count; the z coordinate of the i-th point is the negated depth of the
  i-th node line. Whatever the file, if one of its cell lines names a point id that no
  node line carries, the read ends in an error and no grid is stored.
\<close>

theorem mesh_counts_and_indices:
  assumes hc: "line_int (f ! 1) 0 = Inr nc" and hn: "line_int (f ! 1) 1 = Inr nn"
  shows "(0 \<le> nc \<and> 0 \<le> nn \<and> distinct (file_point_ids (nat nn) f) \<and>
          fort14_read ext (Some f) = Inr st \<longrightarrow>
          (\<exists>g. co_grid st = Some g \<and> int (length (ug_points g)) = nn \<and>
             int (length (xm_cells (ug_cellstream g))) = nc \<and>
             (\<forall>c \<in> set (xm_cells (ug_cellstream g)).
                length c = 3 \<and> (\<forall>i \<in> set c. 0 \<le> i \<and> i < int (length (ug_points g)))) \<and>
             (\<forall>i < nat nn. \<exists>d. line_float (f ! (2 + i)) 3 = Inr d \<and>
                snd (snd (ug_points g ! i)) = - d))) \<and>
         ((\<exists>j < nat nc. \<exists>c \<in> {2, 3, 4}. \<exists>point_id.
              line_int (f ! (2 + nat nn + j)) c = Inr point_id \<and>
              Inr point_id \<notin> set (file_point_ids (nat nn) f)) \<longrightarrow>
          (\<exists>e st'. fort14_read ext (Some f) = Inl (e, st') \<and> co_grid st' = None))"
proof (intro conjI impI)
  assume a: "0 \<le> nc \<and> 0 \<le> nn \<and> distinct (file_point_ids (nat nn) f) \<and>
          fort14_read ext (Some f) = Inr st"
  then have ok: "fort14_read ext (Some f) = Inr st" and dist: "distinct (file_point_ids (nat nn) f)"
    and pos: "0 \<le> nc" "0 \<le> nn" by blast+
  from fort14_read_anatomy [OF ok] obtain nc' nn' es cells where
    h: "line_int (f ! 1) 0 = Inr nc'" "line_int (f ! 1) 1 = Inr nn'"
    and es: "length es = nat nn'"
    and nodes: "\<forall>i < nat nn'. 2 + i < length f \<and> node_entry (split (f ! (2 + i) @ [CHR 0x0A])) = Inr (es ! i)"
    and lc: "length cells = nat nc'"
    and cellsf: "\<forall>j < nat nc'. 2 + nat nn' + j < length f \<and>
        (\<exists>i1 i2 i3. cells ! j = [i1, i2, i3] \<and>
           cell_ref st (split (f ! (2 + nat nn' + j) @ [CHR 0x0A])) 2 = Inr i1 \<and>
           cell_ref st (split (f ! (2 + nat nn' + j) @ [CHR 0x0A])) 3 = Inr i2 \<and>
           cell_ref st (split (f ! (2 + nat nn' + j) @ [CHR 0x0A])) 4 = Inr i3)"
    and pm: "pt_map st = insert_nodes es []"
    and cg: "co_grid st = Some \<lparr>ug_points = map (\<lambda>point_data. fst (snd point_data)) (insert_nodes es []),
                        ug_cellstream = cell_stream_of cells\<rparr>"
    by blast
  have eqs: "nc' = nc" "nn' = nn" using h hc hn by simp_all
  have ids: "file_point_ids (nat nn) f = map (\<lambda>e. Inr (fst e)) es"
    using file_point_ids_entries [OF es nodes] eqs by simp
  have d: "distinct (map fst es)" using dist unfolding ids by (rule distinct_ids_entries)
  have ins: "insert_nodes es [] = indexed 0 es"
    using insert_nodes_distinct [OF d, of "[]"] by simp
  let ?g = "\<lparr>ug_points = map snd es, ug_cellstream = cell_stream_of cells\<rparr>"
  have g: "co_grid st = Some ?g" using cg unfolding ins by (simp add: indexed_points)
  have c3: "\<forall>c \<in> set cells. length c = 3 \<and> (\<forall>i \<in> set c. 0 \<le> i \<and> i < int (length es))"
  proof
    fix c assume "c \<in> set cells"
    then obtain j where j: "j < nat nc'" "c = cells ! j" using lc by (metis in_set_conv_nth)
    with cellsf obtain i1 i2 i3 where c: "cells ! j = [i1, i2, i3]"
      and r: "cell_ref st (split (f ! (2 + nat nn' + j) @ [CHR 0x0A])) 2 = Inr i1"
        "cell_ref st (split (f ! (2 + nat nn' + j) @ [CHR 0x0A])) 3 = Inr i2"
        "cell_ref st (split (f ! (2 + nat nn' + j) @ [CHR 0x0A])) 4 = Inr i3"
      by blast
    have pm': "pt_map st = indexed 0 es" using pm ins by simp
    have "0 \<le> i1 \<and> i1 < int (length es)" "0 \<le> i2 \<and> i2 < int (length es)"
      "0 \<le> i3 \<and> i3 < int (length es)"
      using r pm' cell_indices_in_range by blast+
    then show "length c = 3 \<and> (\<forall>i \<in> set c. 0 \<le> i \<and> i < int (length es))"
      using j(2) c by simp
  qed
  then have xm: "xm_cells (cell_stream_of cells) = cells" using xm_cells_stream by blast
  have z: "\<forall>i < nat nn. \<exists>d. line_float (f ! (2 + i)) 3 = Inr d \<and> snd (snd (map snd es ! i)) = - d"
  proof (intro allI impI)
    fix i assume i: "i < nat nn"
    then have "node_entry (split (f ! (2 + i) @ [CHR 0x0A])) = Inr (fst (es ! i), snd (es ! i))"
      using nodes eqs by simp
    from node_entry_spec [OF this] obtain d where
      "ebind (py_index (split (f ! (2 + i) @ [CHR 0x0A])) 3) py_float = Inr d"
      "snd (snd (snd (es ! i))) = - d" by blast
    then show "\<exists>d. line_float (f ! (2 + i)) 3 = Inr d \<and> snd (snd (map snd es ! i)) = - d"
      using i es eqs by (simp add: line_float_def)
  qed
  have "int (length (ug_points ?g)) = nn" using es eqs pos by simp
  moreover have "int (length (xm_cells (ug_cellstream ?g))) = nc" using xm lc eqs pos by simp
  moreover have "\<forall>c \<in> set (xm_cells (ug_cellstream ?g)).
                length c = 3 \<and> (\<forall>i \<in> set c. 0 \<le> i \<and> i < int (length (ug_points ?g)))"
    using c3 xm by simp
  moreover have "\<forall>i < nat nn. \<exists>d. line_float (f ! (2 + i)) 3 = Inr d \<and>
                snd (snd (ug_points ?g ! i)) = - d"
    using z by simp
  ultimately show "\<exists>g. co_grid st = Some g \<and> int (length (ug_points g)) = nn \<and>
             int (length (xm_cells (ug_cellstream g))) = nc \<and>
             (\<forall>c \<in> set (xm_cells (ug_cellstream g)).
                length c = 3 \<and> (\<forall>i \<in> set c. 0 \<le> i \<and> i < int (length (ug_points g)))) \<and>
             (\<forall>i < nat nn. \<exists>d. line_float (f ! (2 + i)) 3 = Inr d \<and>
                snd (snd (ug_points g ! i)) = - d)"
    using g by blast
next
  assume "\<exists>j < nat nc. \<exists>c \<in> {2, 3, 4}. \<exists>point_id.
              line_int (f ! (2 + nat nn + j)) c = Inr point_id \<and>
              Inr point_id \<notin> set (file_point_ids (nat nn) f)"
  then obtain j c point_id where j: "j < nat nc" and c: "c = 2 \<or> c = 3 \<or> c = 4"
    and li: "line_int (f ! (2 + nat nn + j)) c = Inr point_id"
    and absent: "Inr point_id \<notin> set (file_point_ids (nat nn) f)"
    by auto
  show "\<exists>e st'. fort14_read ext (Some f) = Inl (e, st') \<and> co_grid st' = None"
  proof (cases "fort14_read ext (Some f)")
    case (Inl x)
    obtain e st' where x: "x = (e, st')" by (cases x)
    then have "fort14_read ext (Some f) = Inl (e, st')" using Inl by simp
    then show ?thesis using fort14_read_error by blast
  next
    case (Inr st1)
    from fort14_read_anatomy [OF Inr] obtain nc' nn' es cells where
      h: "line_int (f ! 1) 0 = Inr nc'" "line_int (f ! 1) 1 = Inr nn'"
      and es: "length es = nat nn'"
      and nodes: "\<forall>i < nat nn'. 2 + i < length f \<and> node_entry (split (f ! (2 + i) @ [CHR 0x0A])) = Inr (es ! i)"
      and cellsf: "\<forall>j < nat nc'. 2 + nat nn' + j < length f \<and>
        (\<exists>i1 i2 i3. cells ! j = [i1, i2, i3] \<and>
           cell_ref st1 (split (f ! (2 + nat nn' + j) @ [CHR 0x0A])) 2 = Inr i1 \<and>
           cell_ref st1 (split (f ! (2 + nat nn' + j) @ [CHR 0x0A])) 3 = Inr i2 \<and>
           cell_ref st1 (split (f ! (2 + nat nn' + j) @ [CHR 0x0A])) 4 = Inr i3)"
      and pm: "pt_map st1 = insert_nodes es []"
      by blast
    have eqs: "nc' = nc" "nn' = nn" using h hc hn by simp_all
    have ids: "file_point_ids (nat nn) f = map (\<lambda>e. Inr (fst e)) es"
      using file_point_ids_entries [OF es nodes] eqs by simp
    from cellsf j eqs obtain i where "cell_ref st1 (split (f ! (2 + nat nn + j) @ [CHR 0x0A])) c = Inr i"
      using c by auto
    from cell_ref_spec [OF this] obtain pid xyz k where
      p1: "ebind (py_index (split (f ! (2 + nat nn + j) @ [CHR 0x0A])) c) py_int = Inr pid"
      and p2: "map_of (pt_map st1) pid = Some (xyz, k)" by blast
    have "pid = point_id" using p1 li by (simp add: line_int_def)
    moreover have "pid \<in> fst ` set (pt_map st1)" using p2 by (metis map_of_SomeD fst_conv image_eqI)
    ultimately have "point_id \<in> fst ` set es" using pm insert_nodes_keys [of es "[]"] by simp
    then have "Inr point_id \<in> set (file_point_ids (nat nn) f)" unfolding ids by auto
    then show ?thesis using absent by simp
  qed
qed

text \<open>
  C6. The reader in \<open>xms/adcirc\<close> has no projection hint. For every mesh read, the
  returned tag is the geographic one exactly when the extents of the grid lie within
  -180..180 in x and -90..90 in y, and the local one in metres otherwise. With the
  extents being the bounding box of the points, a mesh with an x or y coordinate at 200
  is tagged local, and a non-empty mesh with all points within the bounds is tagged
  geographic.
\<close>

theorem coordinate_system_tag:
  assumes "fort14_read ext (Some f) = Inr st"
  shows "\<exists>g. co_grid st = Some g \<and>
     (wkt14 st = GEOGRAPHIC_WKT \<longleftrightarrow> in_geographic_bounds (ext (ug_points g))) \<and>
     (wkt14 st \<noteq> GEOGRAPHIC_WKT \<longrightarrow> wkt14 st = LOCAL_METERS_WKT) \<and>
     (ext = bounding_box \<and> (\<exists>p \<in> set (ug_points g). fst p = 200 \<or> fst (snd p) = 200) \<longrightarrow>
        wkt14 st = LOCAL_METERS_WKT) \<and>
     (ext = bounding_box \<and> ug_points g \<noteq> [] \<and>
      (\<forall>p \<in> set (ug_points g). - 180 \<le> fst p \<and> fst p \<le> 180 \<and> - 90 \<le> fst (snd p) \<and> fst (snd p) \<le> 90) \<longrightarrow>
        wkt14 st = GEOGRAPHIC_WKT)"
proof -
  from fort14_read_anatomy [OF assms] obtain es cells where
    cg: "co_grid st = Some \<lparr>ug_points = map (\<lambda>point_data. fst (snd point_data)) (insert_nodes es []),
                        ug_cellstream = cell_stream_of cells\<rparr>"
    and w: "wkt14 st =
       (if in_geographic_bounds (ext (map (\<lambda>point_data. fst (snd point_data)) (insert_nodes es [])))
        then GEOGRAPHIC_WKT else LOCAL_METERS_WKT)"
    by blast
  let ?pts = "map (\<lambda>point_data. fst (snd point_data)) (insert_nodes es [])"
  let ?g = "\<lparr>ug_points = ?pts, ug_cellstream = cell_stream_of cells\<rparr>"
  have a: "wkt14 st = GEOGRAPHIC_WKT \<longleftrightarrow> in_geographic_bounds (ext ?pts)"
    using w wkt_distinct by auto
  have b: "wkt14 st \<noteq> GEOGRAPHIC_WKT \<longrightarrow> wkt14 st = LOCAL_METERS_WKT" using w by auto
  have c: "ext = bounding_box \<and> (\<exists>p \<in> set ?pts. fst p = 200 \<or> fst (snd p) = 200) \<longrightarrow>
        wkt14 st = LOCAL_METERS_WKT"
  proof
    assume h: "ext = bounding_box \<and> (\<exists>p \<in> set ?pts. fst p = 200 \<or> fst (snd p) = 200)"
    then obtain p where "p \<in> set ?pts" "fst p = 200 \<or> fst (snd p) = 200" by blast
    then have "\<not> in_geographic_bounds (bounding_box ?pts)" by (rule bounding_box_outside)
    then show "wkt14 st = LOCAL_METERS_WKT" using w h by simp
  qed
  have d: "ext = bounding_box \<and> ?pts \<noteq> [] \<and>
      (\<forall>p \<in> set ?pts. - 180 \<le> fst p \<and> fst p \<le> 180 \<and> - 90 \<le> fst (snd p) \<and> fst (snd p) \<le> 90) \<longrightarrow>
        wkt14 st = GEOGRAPHIC_WKT"
  proof
    assume h: "ext = bounding_box \<and> ?pts \<noteq> [] \<and>
      (\<forall>p \<in> set ?pts. - 180 \<le> fst p \<and> fst p \<le> 180 \<and> - 90 \<le> fst (snd p) \<and> fst (snd p) \<le> 90)"
    then have "in_geographic_bounds (bounding_box ?pts)" by (intro bounding_box_inside) blast+
    then show "wkt14 st = GEOGRAPHIC_WKT" using w h by simp
  qed
  have "co_grid st = Some ?g \<and>
     (wkt14 st = GEOGRAPHIC_WKT \<longleftrightarrow> in_geographic_bounds (ext (ug_points ?g))) \<and>
     (wkt14 st \<noteq> GEOGRAPHIC_WKT \<longrightarrow> wkt14 st = LOCAL_METERS_WKT) \<and>
     (ext = bounding_box \<and> (\<exists>p \<in> set (ug_points ?g). fst p = 200 \<or> fst (snd p) = 200) \<longrightarrow>
        wkt14 st = LOCAL_METERS_WKT) \<and>
     (ext = bounding_box \<and> ug_points ?g \<noteq> [] \<and>
      (\<forall>p \<in> set (ug_points ?g). - 180 \<le> fst p \<and> fst p \<le> 180 \<and> - 90 \<le> fst (snd p) \<and> fst (snd p) \<le> 90) \<longrightarrow>
        wkt14 st = GEOGRAPHIC_WKT)"
    using cg a b c d by simp
  then show ?thesis by blast
qed

text \<open>
  C10. Each node line is stored under its point id with the size of the point map at
  that moment as its index: a new id makes the map one larger, a repeated id overwrites
  the earlier entry and leaves the size unchanged. With pairwise distinct ids the i-th
  node line gets index i and the point list has the header's node count as its length.
  In \<open>repeated_id_mesh\<close> the id 1 appears twice: it ends with index 2 in a grid of 2
  points, and the cell that names it carries the out-of-range index 2.
\<close>

theorem point_index_is_map_size:
  "(read_node s = Inr s' \<longrightarrow>
      (\<exists>point_id xyz.
         ebind (py_index (split (lines14 s ! current_line s)) 0) py_int = Inr point_id \<and>
         map_of (pt_map s') point_id = Some (xyz, length (pt_map s)) \<and>
         (point_id \<in> fst ` set (pt_map s) \<longrightarrow> length (pt_map s') = length (pt_map s)) \<and>
         (point_id \<notin> fst ` set (pt_map s) \<longrightarrow> length (pt_map s') = Suc (length (pt_map s))))) \<and>
   (line_int (f ! 1) 1 = Inr nn \<and> 0 \<le> nn \<and> distinct (file_point_ids (nat nn) f) \<and>
    fort14_read ext (Some f) = Inr st \<longrightarrow>
      (\<forall>i < nat nn. \<exists>point_id xyz. line_int (f ! (2 + i)) 0 = Inr point_id \<and>
          map_of (pt_map st) point_id = Some (xyz, i)) \<and>
      (\<exists>g. co_grid st = Some g \<and> int (length (ug_points g)) = nn)) \<and>
   fort14_read bounding_box (Some repeated_id_mesh) =
     Inr \<lparr>lines14 = readlines repeated_id_mesh, mesh_name = ''grid'',
          pt_map = [(1, ((0, 1, - 3), 2)), (2, ((1, 0, - 2), 1))],
          assume_geo_coords = True, num_nodes14 = 3, num_cells14 = 1, current_line = 6,
          wkt14 = GEOGRAPHIC_WKT,
          co_grid = Some \<lparr>ug_points = [(0, 1, - 3), (1, 0, - 2)],
                           ug_cellstream = [TRIANGLE, 3, 2, 1, 2]\<rparr>\<rparr>"
proof (intro conjI impI)
  assume rn: "read_node s = Inr s'"
  from read_node_spec [OF rn] obtain point_id xyz where
    ne: "node_entry (split (lines14 s ! current_line s)) = Inr (point_id, xyz)"
    and s': "s' = s\<lparr>current_line := current_line s + 1,
                     pt_map := AList.update point_id (xyz, length (pt_map s)) (pt_map s)\<rparr>"
    by blast
  have pm: "pt_map s' = AList.update point_id (xyz, length (pt_map s)) (pt_map s)"
    unfolding s' by simp
  have a: "ebind (py_index (split (lines14 s ! current_line s)) 0) py_int = Inr point_id"
    using node_entry_spec [OF ne] by blast
  have b: "map_of (pt_map s') point_id = Some (xyz, length (pt_map s))"
    unfolding pm by (simp add: AList.update_conv')
  have c: "point_id \<in> fst ` set (pt_map s) \<longrightarrow> length (pt_map s') = length (pt_map s)"
    unfolding pm by (simp add: update_length)
  have d: "point_id \<notin> fst ` set (pt_map s) \<longrightarrow> length (pt_map s') = Suc (length (pt_map s))"
    unfolding pm by (simp add: update_length)
  show "\<exists>point_id xyz.
         ebind (py_index (split (lines14 s ! current_line s)) 0) py_int = Inr point_id \<and>
         map_of (pt_map s') point_id = Some (xyz, length (pt_map s)) \<and>
         (point_id \<in> fst ` set (pt_map s) \<longrightarrow> length (pt_map s') = length (pt_map s)) \<and>
         (point_id \<notin> fst ` set (pt_map s) \<longrightarrow> length (pt_map s') = Suc (length (pt_map s)))"
    using a b c d by blast
next
  assume a: "line_int (f ! 1) 1 = Inr nn \<and> 0 \<le> nn \<and> distinct (file_point_ids (nat nn) f) \<and>
    fort14_read ext (Some f) = Inr st"
  then have hn: "line_int (f ! 1) 1 = Inr nn" and pos: "0 \<le> nn"
    and dist: "distinct (file_point_ids (nat nn) f)" and ok: "fort14_read ext (Some f) = Inr st"
    by blast+
  from fort14_read_anatomy [OF ok] obtain nn' es cells where
    h: "line_int (f ! 1) 1 = Inr nn'"
    and es: "length es = nat nn'"
    and nodes: "\<forall>i < nat nn'. 2 + i < length f \<and> node_entry (split (f ! (2 + i) @ [CHR 0x0A])) = Inr (es ! i)"
    and pm: "pt_map st = insert_nodes es []"
    and cg: "co_grid st = Some \<lparr>ug_points = map (\<lambda>point_data. fst (snd point_data)) (insert_nodes es []),
                        ug_cellstream = cell_stream_of cells\<rparr>"
    by blast
  have eqs: "nn' = nn" using h hn by simp
  have ids: "file_point_ids (nat nn) f = map (\<lambda>e. Inr (fst e)) es"
    using file_point_ids_entries [OF es nodes] eqs by simp
  have d: "distinct (map fst es)" using dist unfolding ids by (rule distinct_ids_entries)
  have ins: "insert_nodes es [] = indexed 0 es"
    using insert_nodes_distinct [OF d, of "[]"] by simp
  show "\<forall>i < nat nn. \<exists>point_id xyz. line_int (f ! (2 + i)) 0 = Inr point_id \<and>
          map_of (pt_map st) point_id = Some (xyz, i)"
  proof (intro allI impI)
    fix i assume i: "i < nat nn"
    then have "node_entry (split (f ! (2 + i) @ [CHR 0x0A])) = Inr (fst (es ! i), snd (es ! i))"
      using nodes eqs by simp
    from node_entry_spec [OF this] have "line_int (f ! (2 + i)) 0 = Inr (fst (es ! i))"
      by (simp add: line_int_def)
    moreover have "map_of (pt_map st) (fst (es ! i)) = Some (snd (es ! i), i)"
      unfolding pm ins using indexed_map_of [OF d, of i 0] i es eqs by simp
    ultimately show "\<exists>point_id xyz. line_int (f ! (2 + i)) 0 = Inr point_id \<and>
          map_of (pt_map st) point_id = Some (xyz, i)" by blast
  qed
  have "co_grid st = Some \<lparr>ug_points = map snd es, ug_cellstream = cell_stream_of cells\<rparr>"
    using cg unfolding ins by (simp add: indexed_points)
  moreover have "int (length (map snd es)) = nn" using es eqs pos by simp
  ultimately show "\<exists>g. co_grid st = Some g \<and> int (length (ug_points g)) = nn" by simp
next
  show "fort14_read bounding_box (Some repeated_id_mesh) =
     Inr \<lparr>lines14 = readlines repeated_id_mesh, mesh_name = ''grid'',
          pt_map = [(1, ((0, 1, - 3), 2)), (2, ((1, 0, - 2), 1))],
          assume_geo_coords = True, num_nodes14 = 3, num_cells14 = 1, current_line = 6,
          wkt14 = GEOGRAPHIC_WKT,
          co_grid = Some \<lparr>ug_points = [(0, 1, - 3), (1, 0, - 2)],
                           ug_cellstream = [TRIANGLE, 3, 2, 1, 2]\<rparr>\<rparr>"
    by (simp add: repeated_id_mesh_def fort14_defs py_defs eval_nat_numeral)
qed

lemma two_triangle_read_10:
  "fort14_read bounding_box (Some (two_triangle_mesh ''10.0'')) = Inr (two_triangle_state ''10.0'' 10)"
  by (simp add: two_triangle_mesh_def two_triangle_state_def fort14_defs py_defs eval_nat_numeral)

lemma two_triangle_read_200:
  "fort14_read bounding_box (Some (two_triangle_mesh ''200.0'')) = Inr (two_triangle_state ''200.0'' 200)"
  by (simp add: two_triangle_mesh_def two_triangle_state_def fort14_defs py_defs eval_nat_numeral)

lemma two_triangle_header:
  "line_int (two_triangle_mesh xs ! 1) 0 = Inr 2" "line_int (two_triangle_mesh xs ! 1) 1 = Inr 4"
  by (simp_all add: two_triangle_mesh_def line_int_def py_defs)

lemma two_triangle_ids:
  "file_point_ids (nat 4) (two_triangle_mesh ''10.0'') = [Inr 10, Inr 20, Inr 30, Inr 40]"
  by (simp add: two_triangle_mesh_def file_point_ids_def line_int_def py_defs eval_nat_numeral)

text \<open>
  The theorem at a mesh of four nodes (ids 10, 20, 30, 40) and two triangles, and a mesh
  whose only cell names the point id 7 that no node line carries.
\<close>

theorem mesh_counts_and_indices_witness:
  "fort14_read bounding_box (Some (two_triangle_mesh ''10.0'')) = Inr (two_triangle_state ''10.0'' 10) \<and>
   distinct (file_point_ids (nat 4) (two_triangle_mesh ''10.0'')) \<and>
   int (length [(0, 0, - 1.5), (10, 0, - 2.5), (0, 10, - 3.5), (10, 10, - 4.5 :: real)]) = 4 \<and>
   int (length (xm_cells [TRIANGLE, 3, 0, 1, 2, TRIANGLE, 3, 1, 3, 2])) = 2 \<and>
   fort14_read bounding_box (Some undefined_point_mesh) =
     Inl (KeyError,
          \<lparr>lines14 = readlines undefined_point_mesh, mesh_name = ''grid'',
           pt_map = [(1, ((0, 0, - 1), 0)), (2, ((1, 0, - 2), 1)), (3, ((0, 1, - 3), 2))],
           assume_geo_coords = False, num_nodes14 = 3, num_cells14 = 1, current_line = 6,
           wkt14 = [], co_grid = None\<rparr>)"
proof -
  let ?f = "two_triangle_mesh ''10.0''"
  let ?st = "two_triangle_state ''10.0'' 10"
  have dist: "distinct (file_point_ids (nat 4) ?f)" unfolding two_triangle_ids by simp
  have hyp: "(0::int) \<le> 2 \<and> (0::int) \<le> 4 \<and> distinct (file_point_ids (nat 4) ?f) \<and>
          fort14_read bounding_box (Some ?f) = Inr ?st"
    using dist two_triangle_read_10 by simp
  from mesh_counts_and_indices [OF two_triangle_header, of "''10.0''" bounding_box ?st] hyp
  obtain g where g: "co_grid ?st = Some g" "int (length (ug_points g)) = 4"
    "int (length (xm_cells (ug_cellstream g))) = 2"
    by blast
  have "g = \<lparr>ug_points = [(0, 0, - 1.5), (10, 0, - 2.5), (0, 10, - 3.5), (10, 10, - 4.5)],
             ug_cellstream = [TRIANGLE, 3, 0, 1, 2, TRIANGLE, 3, 1, 3, 2]\<rparr>"
    using g(1) by (simp add: two_triangle_state_def)
  then have a: "int (length [(0, 0, - 1.5), (10, 0, - 2.5), (0, 10, - 3.5), (10, 10, - 4.5 :: real)]) = 4"
    and b: "int (length (xm_cells [TRIANGLE, 3, 0, 1, 2, TRIANGLE, 3, 1, 3, 2])) = 2"
    using g(2,3) by simp_all
  have c: "fort14_read bounding_box (Some undefined_point_mesh) =
     Inl (KeyError,
          \<lparr>lines14 = readlines undefined_point_mesh, mesh_name = ''grid'',
           pt_map = [(1, ((0, 0, - 1), 0)), (2, ((1, 0, - 2), 1)), (3, ((0, 1, - 3), 2))],
           assume_geo_coords = False, num_nodes14 = 3, num_cells14 = 1, current_line = 6,
           wkt14 = [], co_grid = None\<rparr>)"
    by (simp add: undefined_point_mesh_def fort14_defs py_defs eval_nat_numeral)
  show ?thesis using two_triangle_read_10 dist a b c by blast
qed

text \<open>
  The theorem at the four-node mesh with one x coordinate at 200, and with that
  coordinate at 10.
\<close>

theorem coordinate_system_tag_witness:
  "fort14_read bounding_box (Some (two_triangle_mesh ''200.0'')) = Inr (two_triangle_state ''200.0'' 200) \<and>
   wkt14 (two_triangle_state ''200.0'' 200) = LOCAL_METERS_WKT \<and>
   fort14_read bounding_box (Some (two_triangle_mesh ''10.0'')) = Inr (two_triangle_state ''10.0'' 10) \<and>
   wkt14 (two_triangle_state ''10.0'' 10) = GEOGRAPHIC_WKT"
proof -
  from coordinate_system_tag [OF two_triangle_read_200] obtain g where
    g: "co_grid (two_triangle_state ''200.0'' 200) = Some g"
    and loc: "bounding_box = bounding_box \<and> (\<exists>p \<in> set (ug_points g). fst p = 200 \<or> fst (snd p) = 200) \<longrightarrow>
        wkt14 (two_triangle_state ''200.0'' 200) = LOCAL_METERS_WKT"
    by blast
  have "(200, 0, - 2.5) \<in> set (ug_points g)" using g by (auto simp: two_triangle_state_def)
  then have a: "wkt14 (two_triangle_state ''200.0'' 200) = LOCAL_METERS_WKT" using loc by force
  from coordinate_system_tag [OF two_triangle_read_10] obtain g' where
    g': "co_grid (two_triangle_state ''10.0'' 10) = Some g'"
    and geo: "bounding_box = bounding_box \<and> ug_points g' \<noteq> [] \<and>
      (\<forall>p \<in> set (ug_points g'). - 180 \<le> fst p \<and> fst p \<le> 180 \<and> - 90 \<le> fst (snd p) \<and> fst (snd p) \<le> 90) \<longrightarrow>
        wkt14 (two_triangle_state ''10.0'' 10) = GEOGRAPHIC_WKT"
    by blast
  have "ug_points g' = [(0, 0, - 1.5), (10, 0, - 2.5), (0, 10, - 3.5), (10, 10, - 4.5)]"
    using g' by (auto simp: two_triangle_state_def)
  then have b: "wkt14 (two_triangle_state ''10.0'' 10) = GEOGRAPHIC_WKT" using geo by simp
  show ?thesis using two_triangle_read_200 two_triangle_read_10 a b by blast
qed

text \<open>
  The theorem at the third node line of \<open>repeated_id_mesh\<close>, read when the map already
  holds the ids 1 and 2, and at the four-node mesh with distinct ids.
\<close>

theorem point_index_is_map_size_witness:
  "read_node repeated_id_state =
     Inr (repeated_id_state\<lparr>current_line := 5, pt_map := [(1, ((0, 1, - 3), 2)), (2, ((1, 0, - 2), 1))]\<rparr>) \<and>
   length [(1 :: int, ((0 :: real, 1 :: real, - 3 :: real), 2 :: nat)), (2, ((1, 0, - 2), 1))] =
     length (pt_map repeated_id_state) \<and>
   map_of (pt_map (two_triangle_state ''10.0'' 10)) 30 = Some ((0, 10, - 3.5), 2)"
proof -
  let ?s' = "repeated_id_state\<lparr>current_line := 5, pt_map := [(1, ((0, 1, - 3), 2)), (2, ((1, 0, - 2), 1))]\<rparr>"
  have rn: "read_node repeated_id_state = Inr ?s'"
    by (simp add: repeated_id_state_def repeated_id_mesh_def read_node_def node_entry_def readlines_def
        py_defs eval_nat_numeral)
  have id1: "ebind (py_index (split (lines14 repeated_id_state ! current_line repeated_id_state)) 0) py_int = Inr 1"
    by (simp add: repeated_id_state_def repeated_id_mesh_def readlines_def py_defs eval_nat_numeral)
  from point_index_is_map_size [of repeated_id_state ?s'] rn
  obtain point_id xyz where
    p: "ebind (py_index (split (lines14 repeated_id_state ! current_line repeated_id_state)) 0) py_int = Inr point_id"
    and q: "point_id \<in> fst ` set (pt_map repeated_id_state) \<longrightarrow>
            length (pt_map ?s') = length (pt_map repeated_id_state)"
    by blast
  have "point_id = 1" using p id1 by simp
  then have "point_id \<in> fst ` set (pt_map repeated_id_state)" by (simp add: repeated_id_state_def)
  then have a: "length [(1 :: int, ((0 :: real, 1 :: real, - 3 :: real), 2 :: nat)), (2, ((1, 0, - 2), 1))] =
     length (pt_map repeated_id_state)" using q by simp
  let ?f = "two_triangle_mesh ''10.0''"
  have hyp: "line_int (?f ! 1) 1 = Inr 4 \<and> (0::int) \<le> 4 \<and> distinct (file_point_ids (nat 4) ?f) \<and>
    fort14_read bounding_box (Some ?f) = Inr (two_triangle_state ''10.0'' 10)"
  proof -
    have "distinct (file_point_ids (nat 4) ?f)" unfolding two_triangle_ids by simp
    then show ?thesis using two_triangle_header(2) [of "''10.0''"] two_triangle_read_10 by simp
  qed
  from point_index_is_map_size [of _ _ ?f 4 bounding_box "two_triangle_state ''10.0'' 10"] hyp
  have "\<forall>i < nat 4. \<exists>point_id xyz. line_int (?f ! (2 + i)) 0 = Inr point_id \<and>
          map_of (pt_map (two_triangle_state ''10.0'' 10)) point_id = Some (xyz, i)"
    by blast
  moreover have "(2::nat) < nat 4" by simp
  ultimately obtain point_id' xyz' where "line_int (?f ! (2 + 2)) 0 = Inr point_id'"
    "map_of (pt_map (two_triangle_state ''10.0'' 10)) point_id' = Some (xyz', 2)"
    by blast
  moreover have "line_int (?f ! (2 + 2)) 0 = Inr 30"
    by (simp add: two_triangle_mesh_def line_int_def py_defs)
  ultimately have "map_of (pt_map (two_triangle_state ''10.0'' 10)) 30 = Some (xyz', 2)" by simp
  then have b: "map_of (pt_map (two_triangle_state ''10.0'' 10)) 30 = Some ((0, 10, - 3.5), 2)"
    by (simp add: two_triangle_state_def)
  show ?thesis using rn a b by blast
qed

section \<open>Solution reader: ASCII time series\<close>

lemmas sol_defs = read_header_def read_scalar_step_def
  read_vector_step_def scalar_layout_def vector_layout_def sol_init_def

lemma readline_Cons [simp]: "readline (l # ls) = (l @ [CHR 0x0A], ls)"
  by (simp add: readline_def)

lemma readline_Nil [simp]: "readline [] = ([], [])"
  by (simp add: readline_def)

lemma strip_Nil [simp]: "strip [] = []"
  by (simp add: strip_def)

lemma read_scalar_vals_sparse_spec:
  assumes "read_scalar_vals n j True fs vals = Inr (True, vals', fs')"
    and "length vals = N"
    and "\<forall>r \<in> set (sparse_records n fs). \<forall>nid vs. r = Some (nid, vs) \<longrightarrow> 1 \<le> nid \<and> nid \<le> int N"
  shows "length vals' = N \<and> n \<le> length fs \<and> fs' = drop n fs \<and>
         (\<forall>i < N. vals' ! i =
            (case last_override (sparse_records n fs) 0 i of None \<Rightarrow> vals ! i | Some v \<Rightarrow> v))"
  using assms
proof (induction n arbitrary: j fs vals)
  case 0
  then show ?case by (auto simp: sparse_records_def last_override_def)
next
  case (Suc n)
  show ?case
  proof (cases fs)
    case Nil
    then show ?thesis using Suc.prems(1) by simp
  next
    case (Cons l fs1)
    let ?line = "l @ [CHR 0x0A]"
    have nb: "\<not> (?line = [] \<or> strip ?line = [])"
      using Suc.prems(1) Cons by (auto split: if_splits)
    then have e0: "ebind (py_index (split ?line) 0) (\<lambda>t0. ebind (py_int t0) (\<lambda>node_id.
        ebind (py_index (split ?line) 1) (\<lambda>t1. ebind (py_float t1) (\<lambda>v.
        ebind (py_setitem vals (node_id - 1) v) (\<lambda>ts_vals'.
          read_scalar_vals n (j + 1) True fs1 ts_vals'))))) = Inr (True, vals', fs')"
      using Suc.prems(1) Cons by (simp split: if_splits)
    from e0 obtain t0 where t0: "py_index (split ?line) 0 = Inr t0"
      and e1: "ebind (py_int t0) (\<lambda>node_id.
        ebind (py_index (split ?line) 1) (\<lambda>t1. ebind (py_float t1) (\<lambda>v.
        ebind (py_setitem vals (node_id - 1) v) (\<lambda>ts_vals'.
          read_scalar_vals n (j + 1) True fs1 ts_vals')))) = Inr (True, vals', fs')"
      by (rule ebind_InrE)
    from e1 obtain nid where nid: "py_int t0 = Inr nid"
      and e2: "ebind (py_index (split ?line) 1) (\<lambda>t1. ebind (py_float t1) (\<lambda>v.
        ebind (py_setitem vals (nid - 1) v) (\<lambda>ts_vals'.
          read_scalar_vals n (j + 1) True fs1 ts_vals'))) = Inr (True, vals', fs')"
      by (rule ebind_InrE)
    from e2 obtain t1 where t1: "py_index (split ?line) 1 = Inr t1"
      and e3: "ebind (py_float t1) (\<lambda>v.
        ebind (py_setitem vals (nid - 1) v) (\<lambda>ts_vals'.
          read_scalar_vals n (j + 1) True fs1 ts_vals')) = Inr (True, vals', fs')"
      by (rule ebind_InrE)
    from e3 obtain v where v: "py_float t1 = Inr v"
      and e4: "ebind (py_setitem vals (nid - 1) v) (\<lambda>ts_vals'.
          read_scalar_vals n (j + 1) True fs1 ts_vals') = Inr (True, vals', fs')"
      by (rule ebind_InrE)
    from e4 obtain vals1 where set1: "py_setitem vals (nid - 1) v = Inr vals1"
      and rest: "read_scalar_vals n (j + 1) True fs1 vals1 = Inr (True, vals', fs')"
      by (rule ebind_InrE)
    have rec: "sparse_record_of ?line = Some (nid, [v])"
      using t0 nid t1 v by (simp add: sparse_record_of_def)
    have recs: "sparse_records (Suc n) fs = Some (nid, [v]) # sparse_records n fs1"
      using Cons rec by (simp add: sparse_records_def)
    have mem: "Some (nid, [v]) \<in> set (sparse_records (Suc n) fs)" unfolding recs by simp
    have rng: "1 \<le> nid" "nid \<le> int N" using Suc.prems(3) mem by blast+
    have "0 \<le> nid - 1" "nid - 1 < int (length vals)" using rng Suc.prems(2) by linarith+
    then have "py_setitem vals (nid - 1) v = Inr (vals[nat (nid - 1) := v])"
      by (rule py_setitem_in_range)
    then have upd: "vals1 = vals[nat (nid - 1) := v]" using set1 by simp
    have len1: "length vals1 = N" using upd Suc.prems(2) by simp
    have ids1: "\<forall>r \<in> set (sparse_records n fs1). \<forall>nid vs. r = Some (nid, vs) \<longrightarrow> 1 \<le> nid \<and> nid \<le> int N"
    proof
      fix r assume "r \<in> set (sparse_records n fs1)"
      then have "r \<in> set (sparse_records (Suc n) fs)" unfolding recs by simp
      then show "\<forall>nid vs. r = Some (nid, vs) \<longrightarrow> 1 \<le> nid \<and> nid \<le> int N"
        using Suc.prems(3) by blast
    qed
    note ih = Suc.IH [OF rest len1 ids1]
    from ih have ih1: "length vals' = N" and ih2: "n \<le> length fs1" and ih3: "fs' = drop n fs1"
      and ih4: "\<forall>i < N. vals' ! i =
            (case last_override (sparse_records n fs1) 0 i of None \<Rightarrow> vals1 ! i | Some v \<Rightarrow> v)"
      by blast+
    have step: "vals1 ! i = (if nid = int i + 1 then [v] ! 0 else vals ! i)" if i: "i < N" for i
    proof -
      have "nid = int i + 1 \<longleftrightarrow> nat (nid - 1) = i" using rng by linarith
      then show ?thesis unfolding upd using Suc.prems(2) i by (simp add: nth_list_update)
    qed
    show ?thesis
    proof (intro conjI allI impI)
      show "length vals' = N" by (rule ih1)
      show "Suc n \<le> length fs" using ih2 Cons by simp
      show "fs' = drop (Suc n) fs" using ih3 Cons by simp
    next
      fix i assume i: "i < N"
      have a: "vals' ! i = (case last_override (sparse_records n fs1) 0 i of
                             None \<Rightarrow> vals1 ! i | Some v \<Rightarrow> v)"
        using ih4 i by blast
      show "vals' ! i = (case last_override (sparse_records (Suc n) fs) 0 i of
                             None \<Rightarrow> vals ! i | Some v \<Rightarrow> v)"
        unfolding a recs last_override_Cons step [OF i]
        by (simp split: option.splits)
    qed
  qed
qed

lemma read_ascii_scalars_eq:
  assumes "read_header f st = Inr (st1, fs)"
    and "read_timesteps (read_scalar_step (num_nodes_sol st1)) (nat (num_ts st1)) fs [] False = Inr (w, rd)"
  shows "read_ascii_scalars f name st =
           (if rd then st1\<lparr>added := added st1 @
                   [\<lparr>sd_name = name, sd_num_components = 1, sd_timesteps = w\<rparr>]\<rparr>
            else st1)"
  using assms by (simp add: read_ascii_scalars_def)


lemma scenario_C_header:
  "read_header scenario_C sol_init =
     Inr (sol_init\<lparr>num_ts := 1, num_nodes_sol := 3\<rparr>, [''1.0 1 1 0.0'', ''2 7.5''])"
  by (simp add: scenario_C_def sol_defs py_defs)

lemma scenario_C_steps:
  "read_timesteps (read_scalar_step 3) 1 [''1.0 1 1 0.0'', ''2 7.5''] [] False =
     Inr ([(1, Scalar [0, 7.5, 0])], True)"
  by (simp add: sol_defs py_defs eval_nat_numeral)

lemma scenario_C_read:
  "read_ascii_scalars scenario_C ''Water Surface (eta)'' sol_init =
     \<lparr>num_ts = 1, num_nodes_sol = 3, read_file = [], read_data = False,
      added = [\<lparr>sd_name = ''Water Surface (eta)'', sd_num_components = 1,
                sd_timesteps = [(1, Scalar [0, 7.5, 0])]\<rparr>],
      log = []\<rparr>"
proof -
  have "read_timesteps (read_scalar_step (num_nodes_sol (sol_init\<lparr>num_ts := 1, num_nodes_sol := 3\<rparr>)))
          (nat (num_ts (sol_init\<lparr>num_ts := 1, num_nodes_sol := 3\<rparr>)))
          [''1.0 1 1 0.0'', ''2 7.5''] [] False = Inr ([(1, Scalar [0, 7.5, 0])], True)"
    using scenario_C_steps by simp
  from read_ascii_scalars_eq [OF scenario_C_header this]
  show ?thesis by (simp add: sol_init_def)
qed

lemma sparse_step_values:
  assumes "read_scalar_step nn (ts_line # rest) = Inr (Decoded ts_time (Scalar ts_vals) fs')"
    and "length (split (ts_line @ [CHR 0x0A])) > 3"
    and "line_int ts_line 2 = Inr sparse_count"
    and "line_float ts_line 3 = Inr default_val"
    and "\<forall>r \<in> set (sparse_records (nat sparse_count) rest).
           \<forall>node_id vs. r = Some (node_id, vs) \<longrightarrow> 1 \<le> node_id \<and> node_id \<le> int (nat nn)"
  shows "length ts_vals = nat nn \<and>
         (\<forall>i < nat nn. ts_vals ! i =
            (case last_override (sparse_records (nat sparse_count) rest) 0 i of
               None \<Rightarrow> default_val | Some v \<Rightarrow> v))"
proof -
  let ?line = "ts_line @ [CHR 0x0A]"
  have lay: "scalar_layout nn (split ?line) = Inr (sparse_count, default_val, True)"
    using assms(2,3,4)
    by (auto simp: scalar_layout_def line_int_def line_float_def elim!: ebind_InrE)
  have nb: "\<not> (?line = [] \<or> strip ?line = [])"
    using assms(1) by (auto simp: read_scalar_step_def split: if_splits)
  then have e0: "ebind (py_index (split ?line) 0) (\<lambda>t0. ebind (py_float t0) (\<lambda>ts_time.
        ebind (scalar_layout nn (split ?line)) (\<lambda>layout.
        ebind (read_scalar_vals (nat (fst layout)) 0 (snd (snd layout)) rest
                 (replicate (nat nn) (fst (snd layout)))) (\<lambda>r.
          if fst r then Inr (Decoded ts_time (Scalar (fst (snd r))) (snd (snd r)))
          else Inr (Dropped (snd (snd r))))))) = Inr (Decoded ts_time (Scalar ts_vals) fs')"
    using assms(1) by (simp add: read_scalar_step_def split: if_splits)
  from e0 obtain t0 where
    e1: "ebind (py_float t0) (\<lambda>ts_time.
        ebind (scalar_layout nn (split ?line)) (\<lambda>layout.
        ebind (read_scalar_vals (nat (fst layout)) 0 (snd (snd layout)) rest
                 (replicate (nat nn) (fst (snd layout)))) (\<lambda>r.
          if fst r then Inr (Decoded ts_time (Scalar (fst (snd r))) (snd (snd r)))
          else Inr (Dropped (snd (snd r)))))) = Inr (Decoded ts_time (Scalar ts_vals) fs')"
    by (rule ebind_InrE)
  from e1 obtain t where
    e2: "ebind (scalar_layout nn (split ?line)) (\<lambda>layout.
        ebind (read_scalar_vals (nat (fst layout)) 0 (snd (snd layout)) rest
                 (replicate (nat nn) (fst (snd layout)))) (\<lambda>r.
          if fst r then Inr (Decoded t (Scalar (fst (snd r))) (snd (snd r)))
          else Inr (Dropped (snd (snd r))))) = Inr (Decoded ts_time (Scalar ts_vals) fs')"
    by (rule ebind_InrE)
  from e2 have
    e3: "ebind (read_scalar_vals (nat sparse_count) 0 True rest (replicate (nat nn) default_val)) (\<lambda>r.
          if fst r then Inr (Decoded t (Scalar (fst (snd r))) (snd (snd r)))
          else Inr (Dropped (snd (snd r)))) = Inr (Decoded ts_time (Scalar ts_vals) fs')"
    unfolding lay by simp
  from e3 obtain r where
    r: "read_scalar_vals (nat sparse_count) 0 True rest (replicate (nat nn) default_val) = Inr r"
    and e4: "(if fst r then Inr (Decoded t (Scalar (fst (snd r))) (snd (snd r)))
          else Inr (Dropped (snd (snd r)))) = (Inr (Decoded ts_time (Scalar ts_vals) fs') :: error + step)"
    by (rule ebind_InrE)
  from e4 have "fst r" "fst (snd r) = ts_vals" "snd (snd r) = fs'" by (auto split: if_splits)
  then have r': "r = (True, ts_vals, fs')" by (cases r) auto
  have len: "length (replicate (nat nn) default_val) = nat nn" by simp
  note spec = read_scalar_vals_sparse_spec [OF r [unfolded r'] len assms(5)]
  have a: "length ts_vals = nat nn" using spec by blast
  have b: "\<forall>i < nat nn. ts_vals ! i =
            (case last_override (sparse_records (nat sparse_count) rest) 0 i of
               None \<Rightarrow> default_val | Some v \<Rightarrow> v)"
  proof (intro allI impI)
    fix i assume i: "i < nat nn"
    then have "ts_vals ! i = (case last_override (sparse_records (nat sparse_count) rest) 0 i of
               None \<Rightarrow> replicate (nat nn) default_val ! i | Some v \<Rightarrow> v)"
      using spec by blast
    then show "ts_vals ! i = (case last_override (sparse_records (nat sparse_count) rest) 0 i of
               None \<Rightarrow> default_val | Some v \<Rightarrow> v)"
      using i by (simp split: option.splits)
  qed
  show ?thesis using a b by blast
qed

lemma sparse_node_zero_header:
  "read_header sparse_node_zero sol_init =
     Inr (sol_init\<lparr>num_ts := 1, num_nodes_sol := 3\<rparr>, [''1.0 1 1 0.0'', ''0 7.5''])"
  by (simp add: sparse_node_zero_def sol_defs py_defs)

lemma sparse_node_zero_steps:
  "read_timesteps (read_scalar_step 3) 1 [''1.0 1 1 0.0'', ''0 7.5''] [] False =
     Inr ([(1, Scalar [0, 0, 7.5])], True)"
  by (simp add: sol_defs py_defs eval_nat_numeral)

text \<open>
  The claim as stated fails when a listed node id is 0: in \<open>sparse_node_zero\<close> the
  only pair is (0, 7.5), Python's index \<open>-1\<close> is the last position, and node 3, which
  is not listed, gets 7.5 instead of the default.
\<close>

theorem sparse_node_zero_counterexample:
  "read_ascii_scalars sparse_node_zero ''Water Surface (eta)'' sol_init =
     \<lparr>num_ts = 1, num_nodes_sol = 3, read_file = [], read_data = False,
      added = [\<lparr>sd_name = ''Water Surface (eta)'', sd_num_components = 1,
                sd_timesteps = [(1, Scalar [0, 0, 7.5])]\<rparr>],
      log = []\<rparr> \<and>
   sparse_records 1 (drop 3 sparse_node_zero) = [Some (0, [7.5])]"
proof -
  have "read_timesteps (read_scalar_step (num_nodes_sol (sol_init\<lparr>num_ts := 1, num_nodes_sol := 3\<rparr>)))
          (nat (num_ts (sol_init\<lparr>num_ts := 1, num_nodes_sol := 3\<rparr>)))
          [''1.0 1 1 0.0'', ''0 7.5''] [] False = Inr ([(1, Scalar [0, 0, 7.5])], True)"
    using sparse_node_zero_steps by simp
  from read_ascii_scalars_eq [OF sparse_node_zero_header this]
  have a: "read_ascii_scalars sparse_node_zero ''Water Surface (eta)'' sol_init =
     \<lparr>num_ts = 1, num_nodes_sol = 3, read_file = [], read_data = False,
      added = [\<lparr>sd_name = ''Water Surface (eta)'', sd_num_components = 1,
                sd_timesteps = [(1, Scalar [0, 0, 7.5])]\<rparr>],
      log = []\<rparr>"
    by (simp add: sol_init_def)
  have b: "sparse_records 1 (drop 3 sparse_node_zero) = [Some (0, [7.5])]"
    by (simp add: sparse_node_zero_def sparse_records_def sparse_record_of_def py_defs)
  show ?thesis using a b by blast
qed




lemma cut_short_header:
  "read_header cut_short sol_init =
     Inr (sol_init\<lparr>num_ts := 3, num_nodes_sol := 2\<rparr>,
          [''1.0 1'', ''1 0.5'', ''2 0.6'', ''2.0 2'', ''1 0.7''])"
  by (simp add: cut_short_def sol_defs py_defs)



lemma cut_short_vectors_header:
  "read_header cut_short_vectors sol_init =
     Inr (sol_init\<lparr>num_ts := 3, num_nodes_sol := 2\<rparr>,
          [''1.0 1'', ''1 0.5 0.1'', ''2 0.6 0.2'', ''2.0 2'', ''1 0.7 0.3'', [], '' ''])"
  by (simp add: cut_short_vectors_def sol_defs py_defs)







lemma read_header_spec:
  assumes "line_int hdr_line 0 = Inr nts" and "line_int hdr_line 1 = Inr nn"
  shows "read_header (title # hdr_line # fs) st = Inr (st\<lparr>num_ts := nts, num_nodes_sol := nn\<rparr>, fs)"
  using assms by (simp add: read_header_def line_int_def)

lemma read_timesteps_prefix:
  "read_timesteps pass n fs w rd = Inr (w', rd') \<Longrightarrow> (\<exists>r. w' = w @ r) \<and> (rd \<longrightarrow> rd')"
proof (induction n arbitrary: fs w rd)
  case 0
  then show ?case by simp
next
  case (Suc n)
  show ?case
  proof (cases "pass fs")
    case (Inl e)
    then show ?thesis using Suc.prems by simp
  next
    case (Inr s)
    show ?thesis
    proof (cases s)
      case Stop
      then show ?thesis using Suc.prems Inr by simp
    next
      case (Dropped fs1)
      then have "read_timesteps pass n fs1 w rd = Inr (w', rd')" using Suc.prems Inr by simp
      then show ?thesis by (rule Suc.IH)
    next
      case (Decoded t v fs1)
      then have "read_timesteps pass n fs1 (w @ [(t, v)]) True = Inr (w', rd')"
        using Suc.prems Inr by simp
      from Suc.IH [OF this] show ?thesis by auto
    qed
  qed
qed

lemma read_timesteps_reaches:
  assumes "read_timesteps pass n fs w rd = Inr (w', rd')"
    and "run_passes pass k fs = Some (ts, fs1)" and "k < n"
    and "pass fs1 = Inr (Decoded t v fs2)"
  shows "rd' \<and> (\<exists>r. w' = w @ ts @ (t, v) # r)"
  using assms
proof (induction k arbitrary: n fs w rd ts)
  case 0
  then obtain m where n: "n = Suc m" by (cases n) auto
  have ts: "ts = []" "fs1 = fs" using "0.prems"(2) by simp_all
  have "read_timesteps pass m fs2 (w @ [(t, v)]) True = Inr (w', rd')"
    using "0.prems"(1,4) n ts by simp
  from read_timesteps_prefix [OF this] show ?case using ts by auto
next
  case (Suc k)
  then obtain m where n: "n = Suc m" and km: "k < m" by (cases n) auto
  show ?case
  proof (cases "pass fs")
    case (Inl e)
    then show ?thesis using Suc.prems(2) by simp
  next
    case (Inr s)
    show ?thesis
    proof (cases s)
      case Stop
      then show ?thesis using Suc.prems(2) Inr by simp
    next
      case (Dropped fsa)
      then have a: "read_timesteps pass m fsa w rd = Inr (w', rd')"
        and b: "run_passes pass k fsa = Some (ts, fs1)"
        using Suc.prems(1,2) Inr n by simp_all
      show ?thesis by (rule Suc.IH [OF a b km Suc.prems(4)])
    next
      case (Decoded t0 v0 fsa)
      then obtain ts' where b: "run_passes pass k fsa = Some (ts', fs1)"
        and ts: "ts = (t0, v0) # ts'"
        using Suc.prems(2) Inr by (auto split: option.splits)
      have a: "read_timesteps pass m fsa (w @ [(t0, v0)]) True = Inr (w', rd')"
        using Suc.prems(1) Inr Decoded n by simp
      from Suc.IH [OF a b km Suc.prems(4)] show ?thesis using ts by auto
    qed
  qed
qed

lemma read_ascii_scalars_ok:
  assumes "read_header f st = Inr (st1, fs)"
    and "log (read_ascii_scalars f name st) = log st1"
  shows "\<exists>w rd. read_timesteps (read_scalar_step (num_nodes_sol st1)) (nat (num_ts st1)) fs [] False =
                   Inr (w, rd) \<and>
                 read_ascii_scalars f name st =
                   (if rd then st1\<lparr>added := added st1 @
                       [\<lparr>sd_name = name, sd_num_components = 1, sd_timesteps = w\<rparr>]\<rparr>
                    else st1)"
  using assms by (auto simp: read_ascii_scalars_def split: sum.splits)

text \<open>
  C7, as amended. A scalar file with title line, header line and time series \<open>fs\<close> is
  read without an error being logged; after \<open>k\<close> passes of the loop the next lines are
  a timestep line with more than three tokens (the sparse record: count at token 2,
  default at token 3) and its value lines, which the pass decodes, and every listed node
  id lies between 1 and the header node count. Then the dataset added by the read holds,
  after the timesteps decoded before, this timestep with an array of the length of the
  node count; index \<open>i\<close> holds the value of the last listed pair for node \<open>i + 1\<close>,
  and the default when node \<open>i + 1\<close> is not listed. The file of scenario C (one
  timestep, three nodes, sparse count 1, default 0.0, pair (2, 7.5)) gives [0.0, 7.5, 0.0].
\<close>

theorem sparse_scalar_timestep:
  assumes hdr: "line_int hdr_line 0 = Inr nts" "line_int hdr_line 1 = Inr nn"
    and pre: "run_passes (read_scalar_step nn) k fs = Some (ts, ts_line # rest)"
    and k: "k < nat nts"
    and step: "read_scalar_step nn (ts_line # rest) = Inr (Decoded ts_time (Scalar ts_vals) fs')"
    and sparse: "length (split (ts_line @ [CHR 0x0A])) > 3"
    and cnt: "line_int ts_line 2 = Inr sparse_count"
    and dflt: "line_float ts_line 3 = Inr default_val"
    and ids: "\<forall>r \<in> set (sparse_records (nat sparse_count) rest).
           \<forall>node_id vs. r = Some (node_id, vs) \<longrightarrow> 1 \<le> node_id \<and> node_id \<le> int (nat nn)"
    and ok: "log (read_ascii_scalars (title # hdr_line # fs) name st) = log st"
  shows "(\<exists>later. read_ascii_scalars (title # hdr_line # fs) name st =
            st\<lparr>num_ts := nts, num_nodes_sol := nn,
               added := added st @
                 [\<lparr>sd_name = name, sd_num_components = 1,
                   sd_timesteps = ts @ (ts_time, Scalar ts_vals) # later\<rparr>]\<rparr>) \<and>
         length ts_vals = nat nn \<and>
         (\<forall>i < nat nn. ts_vals ! i =
            (case last_override (sparse_records (nat sparse_count) rest) 0 i of
               None \<Rightarrow> default_val | Some v \<Rightarrow> v)) \<and>
         read_ascii_scalars scenario_C ''Water Surface (eta)'' sol_init =
           \<lparr>num_ts = 1, num_nodes_sol = 3, read_file = [], read_data = False,
            added = [\<lparr>sd_name = ''Water Surface (eta)'', sd_num_components = 1,
                      sd_timesteps = [(1, Scalar [0, 7.5, 0])]\<rparr>],
            log = []\<rparr>"
proof -
  let ?st1 = "st\<lparr>num_ts := nts, num_nodes_sol := nn\<rparr>"
  let ?f = "title # hdr_line # fs"
  have h: "read_header ?f st = Inr (?st1, fs)" by (rule read_header_spec [OF hdr])
  have l: "log (read_ascii_scalars ?f name st) = log ?st1" using ok by simp
  from read_ascii_scalars_ok [OF h l] obtain w rd where
    rt: "read_timesteps (read_scalar_step nn) (nat nts) fs [] False = Inr (w, rd)"
    and res: "read_ascii_scalars ?f name st =
                   (if rd then ?st1\<lparr>added := added ?st1 @
                       [\<lparr>sd_name = name, sd_num_components = 1, sd_timesteps = w\<rparr>]\<rparr>
                    else ?st1)"
    by auto
  from read_timesteps_reaches [OF rt pre k step] obtain later where
    rd: "rd" and w: "w = ts @ (ts_time, Scalar ts_vals) # later" by auto
  have a: "\<exists>later. read_ascii_scalars ?f name st =
            st\<lparr>num_ts := nts, num_nodes_sol := nn,
               added := added st @
                 [\<lparr>sd_name = name, sd_num_components = 1,
                   sd_timesteps = ts @ (ts_time, Scalar ts_vals) # later\<rparr>]\<rparr>"
    using res rd w by auto
  note v = sparse_step_values [OF step sparse cnt dflt ids]
  show ?thesis using a v scenario_C_read by blast
qed

lemma two_sparse_first:
  "read_scalar_step 3 [''1.0 1'', ''1 0.1'', ''2 0.2'', ''3 0.3'', ''2.0 2 2 9.0'', ''3 7.5'', ''3 8.5''] =
     Inr (Decoded 1 (Scalar [0.1, 0.2, 0.3]) [''2.0 2 2 9.0'', ''3 7.5'', ''3 8.5''])"
  by (simp add: sol_defs py_defs eval_nat_numeral)

lemma two_sparse_second:
  "read_scalar_step 3 [''2.0 2 2 9.0'', ''3 7.5'', ''3 8.5''] =
     Inr (Decoded 2 (Scalar [9, 9, 8.5]) [])"
  by (simp add: sol_defs py_defs eval_nat_numeral)

lemma two_sparse_read:
  "read_ascii_scalars two_sparse_steps ''Water Surface (eta)'' sol_init =
     \<lparr>num_ts = 2, num_nodes_sol = 3, read_file = [], read_data = False,
      added = [\<lparr>sd_name = ''Water Surface (eta)'', sd_num_components = 1,
                sd_timesteps = [(1, Scalar [0.1, 0.2, 0.3]), (2, Scalar [9, 9, 8.5])]\<rparr>],
      log = []\<rparr>"
proof -
  have h: "read_header two_sparse_steps sol_init =
     Inr (sol_init\<lparr>num_ts := 2, num_nodes_sol := 3\<rparr>,
          [''1.0 1'', ''1 0.1'', ''2 0.2'', ''3 0.3'', ''2.0 2 2 9.0'', ''3 7.5'', ''3 8.5''])"
    by (simp add: two_sparse_steps_def sol_defs py_defs)
  have "read_timesteps (read_scalar_step 3) (Suc (Suc 0))
          [''1.0 1'', ''1 0.1'', ''2 0.2'', ''3 0.3'', ''2.0 2 2 9.0'', ''3 7.5'', ''3 8.5''] [] False =
        Inr ([(1, Scalar [0.1, 0.2, 0.3]), (2, Scalar [9, 9, 8.5])], True)"
    by (simp add: two_sparse_first two_sparse_second)
  then have "read_timesteps (read_scalar_step (num_nodes_sol (sol_init\<lparr>num_ts := 2, num_nodes_sol := 3\<rparr>)))
          (nat (num_ts (sol_init\<lparr>num_ts := 2, num_nodes_sol := 3\<rparr>)))
          [''1.0 1'', ''1 0.1'', ''2 0.2'', ''3 0.3'', ''2.0 2 2 9.0'', ''3 7.5'', ''3 8.5''] [] False =
        Inr ([(1, Scalar [0.1, 0.2, 0.3]), (2, Scalar [9, 9, 8.5])], True)"
    by (simp add: eval_nat_numeral)
  from read_ascii_scalars_eq [OF h this] show ?thesis by (simp add: sol_init_def)
qed

text \<open>
  The theorem at the second timestep of \<open>two_sparse_steps\<close>: node 3 is listed twice
  and keeps the second value, nodes 1 and 2 get the default 9.
\<close>

theorem sparse_scalar_timestep_witness:
  "read_ascii_scalars two_sparse_steps ''Water Surface (eta)'' sol_init =
     \<lparr>num_ts = 2, num_nodes_sol = 3, read_file = [], read_data = False,
      added = [\<lparr>sd_name = ''Water Surface (eta)'', sd_num_components = 1,
                sd_timesteps = [(1, Scalar [0.1, 0.2, 0.3]), (2, Scalar [9, 9, 8.5])]\<rparr>],
      log = []\<rparr> \<and>
   sparse_records (nat 2) [''3 7.5'', ''3 8.5''] = [Some (3, [7.5]), Some (3, [8.5])] \<and>
   length [9, 9, 8.5 :: real] = nat 3 \<and> [9, 9, 8.5 :: real] ! 2 = 8.5 \<and> [9, 9, 8.5 :: real] ! 0 = 9"
proof -
  let ?fs = "[''1.0 1'', ''1 0.1'', ''2 0.2'', ''3 0.3'', ''2.0 2 2 9.0'', ''3 7.5'', ''3 8.5'']"
  have f: "two_sparse_steps = ''elevation'' # ''2 3 1.0 1 1'' # ?fs"
    by (simp add: two_sparse_steps_def)
  have h1: "line_int ''2 3 1.0 1 1'' 0 = Inr 2" and h2: "line_int ''2 3 1.0 1 1'' 1 = Inr 3"
    by (simp_all add: line_int_def py_defs)
  have pre: "run_passes (read_scalar_step 3) 1 ?fs =
               Some ([(1, Scalar [0.1, 0.2, 0.3])], ''2.0 2 2 9.0'' # [''3 7.5'', ''3 8.5''])"
    unfolding One_nat_def run_passes.simps two_sparse_first by simp
  have k: "(1::nat) < nat 2" by simp
  have step: "read_scalar_step 3 (''2.0 2 2 9.0'' # [''3 7.5'', ''3 8.5'']) =
                Inr (Decoded 2 (Scalar [9, 9, 8.5]) [])"
    by (rule two_sparse_second)
  have sp: "length (split (''2.0 2 2 9.0'' @ [CHR 0x0A])) > 3" by (simp add: py_defs)
  have cnt: "line_int ''2.0 2 2 9.0'' 2 = Inr 2" by (simp add: line_int_def py_defs)
  have dflt: "line_float ''2.0 2 2 9.0'' 3 = Inr 9" by (simp add: line_float_def py_defs)
  have recs: "sparse_records (nat 2) [''3 7.5'', ''3 8.5''] = [Some (3, [7.5]), Some (3, [8.5])]"
    by (simp add: sparse_records_def sparse_record_of_def py_defs)
  have ids: "\<forall>r \<in> set (sparse_records (nat 2) [''3 7.5'', ''3 8.5'']).
           \<forall>node_id vs. r = Some (node_id, vs) \<longrightarrow> 1 \<le> node_id \<and> node_id \<le> int (nat 3)"
    unfolding recs by simp
  have ok: "log (read_ascii_scalars (''elevation'' # ''2 3 1.0 1 1'' # ?fs)
                   ''Water Surface (eta)'' sol_init) = log sol_init"
    unfolding f [symmetric] two_sparse_read by (simp add: sol_init_def)
  note t = sparse_scalar_timestep [OF h1 h2 pre k step sp cnt dflt ids ok]
  have a: "length [9, 9, 8.5 :: real] = nat 3"
    and b: "\<forall>i < nat 3. [9, 9, 8.5 :: real] ! i =
            (case last_override (sparse_records (nat 2) [''3 7.5'', ''3 8.5'']) 0 i of
               None \<Rightarrow> 9 | Some v \<Rightarrow> v)"
    using t by blast+
  have "(2::nat) < nat 3" and "(0::nat) < nat 3" by simp_all
  with b have "[9, 9, 8.5 :: real] ! 2 =
            (case last_override (sparse_records (nat 2) [''3 7.5'', ''3 8.5'']) 0 2 of
               None \<Rightarrow> 9 | Some v \<Rightarrow> v)"
    and "[9, 9, 8.5 :: real] ! 0 =
            (case last_override (sparse_records (nat 2) [''3 7.5'', ''3 8.5'']) 0 0 of
               None \<Rightarrow> 9 | Some v \<Rightarrow> v)"
    by blast+
  then have c: "[9, 9, 8.5 :: real] ! 2 = 8.5" and d: "[9, 9, 8.5 :: real] ! 0 = 9"
    unfolding recs by (simp_all add: last_override_def)
  show ?thesis using two_sparse_read recs a c d by blast
qed





section \<open>NetCDF readers: null values\<close>

lemmas netcdf_defs = fort63_read_netcdf_scalars_def fort63_write_xmdf_dataset_def
  read_netcdf_scalars_def read_netcdf_vectors_def read_netcdf_max_scalars_def
  assign_where_def np_equal_def np_isnan_def truthy_def ADCIRC_NULL_VALUE_def
  write_xmdf_dataset_def np_stack_def null_round_trip_def Let_def

lemma scalar_null_handling:
  "np_size scalar_data \<noteq> 0 \<Longrightarrow>
     read_netcdf_scalars filename scalar_data time_vals dset_name =
       Inr [\<lparr>xd_name = dset_name, xd_times = time_vals,
             xd_data = Values (map (map null_round_trip) scalar_data), xd_num_components = 1\<rparr>]"
  by (auto simp: netcdf_defs)

lemma fort63_scalar_null_handling:
  "fort63_read_netcdf_scalars geom_num_nodes scalar_data time_vals dataset_name = Inr d \<Longrightarrow>
     d = \<lparr>xd_name = dataset_name, xd_times = time_vals,
          xd_data = Values (map (map null_round_trip) scalar_data), xd_num_components = 1\<rparr>"
  by (auto simp: netcdf_defs split: if_splits)

lemma vector_null_handling:
  "np_size x_data \<noteq> 0 \<Longrightarrow>
     read_netcdf_vectors filename x_data y_data time_vals dset_name =
       Inr [\<lparr>xd_name = dset_name, xd_times = time_vals,
             xd_data = Components (np_stack (map (map null_round_trip) x_data)
                                            (map (map null_round_trip) y_data)),
             xd_num_components = 2\<rparr>]"
  by (auto simp: netcdf_defs zip_map1 zip_map2 split_beta)

lemma null_round_trip_keeps:
  "null_round_trip ADCIRC_NULL_VALUE = ADCIRC_NULL_VALUE"
  "x \<noteq> NaN \<Longrightarrow> null_round_trip x = x"
  by (simp_all add: null_round_trip_def ADCIRC_NULL_VALUE_def)

text \<open>
  C1. The claim: every NetCDF decode keeps the sentinel -99999.0 and alters no other
  value that is not NaN, a legitimate 0.0 in particular, for scalar, vector and
  maximum reads. The scalar and the vector readers do (the three lemmas above). The
  reader of the maximum files tests the truth value of each element, and 0.0 is false:
  on the maximum elevations 0.0, 1.5, -99999.0 it writes -99999.0, 1.5, -99999.0, and
  likewise for the times.
\<close>

theorem max_read_replaces_zero:
  "read_netcdf_max_scalars ''maxele.63.nc'' [Fin 0, Fin 1.5, Fin (- 99999)] [Fin 0, Fin 2, Fin (- 99999)]
     ''Max eta'' =
     Inr [\<lparr>xd_name = ''Max eta'', xd_times = [0],
           xd_data = Values [[Fin (- 99999), Fin 1.5, Fin (- 99999)]], xd_num_components = 1\<rparr>,
          \<lparr>xd_name = ''Max eta Time'', xd_times = [0],
           xd_data = Values [[Fin (- 99999), Fin 2, Fin (- 99999)]], xd_num_components = 1\<rparr>]"
  by (simp add: netcdf_defs)

end
